(* ===== verification/Cosmo_Prelude.thy ===== *)
theory Cosmo_Prelude
  imports Main "HOL-Library.Word"
begin

text \<open>
  Shared vocabulary of the development.  A C \<open>char\<close> buffer is a list of bytes, a byte is an
  \<open>8 word\<close>; the pair of arguments \<open>(p, n)\<close> that most routines of \<open>net/http\<close> take is one value of
  type \<open>cstr\<close>; a \<open>malloc\<close> that may fail is a predicate on the requested size; \<open>errno\<close> values are a
  datatype.  The second half holds the facts on lists, words and 256-entry tables that the component
  theories use, and the interface of byte-driven parsers (\<open>resumable\<close>).
\<close>

unbundle bit_operations_syntax

named_theorems model_defs
  \<open>definitions that a component proof unfolds as a group\<close>

subsection \<open>Bytes, buffers, arguments\<close>

type_synonym byte = "8 word"
type_synonym bytes = "byte list"

abbreviation (input) ch_NUL :: byte where "ch_NUL \<equiv> 0"
abbreviation (input) ch_HT :: byte where "ch_HT \<equiv> 0x09"
abbreviation (input) ch_LF :: byte where "ch_LF \<equiv> 0x0A"
abbreviation (input) ch_VT :: byte where "ch_VT \<equiv> 0x0B"
abbreviation (input) ch_CR :: byte where "ch_CR \<equiv> 0x0D"
abbreviation (input) ch_SP :: byte where "ch_SP \<equiv> 0x20"

text \<open>The error codes the modelled routines set.\<close>

datatype errno = EBADMSG | EILSEQ | ENOMEM | EINVAL

text \<open>
  \<open>Buf xs\<close> is a pointer with an explicit length, \<open>Zstr p\<close> a pointer passed with the length \<open>-1\<close>,
  which the routines resolve by \<open>n = p ? strlen(p) : 0\<close>.
\<close>

datatype cstr = Buf bytes | Zstr "bytes option"

definition strlen :: "bytes \<Rightarrow> nat" where
  "strlen m = length (takeWhile (\<lambda>c. c \<noteq> ch_NUL) m)"

primrec arg_bytes :: "cstr \<Rightarrow> bytes" where
  "arg_bytes (Buf xs) = xs"
| "arg_bytes (Zstr p) = (case p of None \<Rightarrow> [] | Some m \<Rightarrow> take (strlen m) m)"

text \<open>Whether an allocation of the given number of bytes succeeds.\<close>

type_synonym allocator = "nat \<Rightarrow> bool"

text \<open>\<open>memmove(p + d, p + s, k)\<close> inside one buffer; the regions may overlap.\<close>

definition memmove :: "bytes \<Rightarrow> nat \<Rightarrow> nat \<Rightarrow> nat \<Rightarrow> bytes" where
  "memmove p d s k = take d p @ take k (drop s p) @ drop (d + k) p"

text \<open>The character string of a C literal.\<close>

definition str :: "string \<Rightarrow> bytes" where
  "str s = map of_char s"

subsection \<open>Lists\<close>

lemma length_memmove [simp]:
  "d + k \<le> length p \<Longrightarrow> s + k \<le> length p \<Longrightarrow> length (memmove p d s k) = length p"
  by (simp add: memmove_def)

lemma take_memmove:
  "d \<le> length p \<Longrightarrow> s + k \<le> length p \<Longrightarrow>
   take (d + k) (memmove p d s k) = take d p @ take k (drop s p)"
  by (simp add: memmove_def)

lemma drop_memmove:
  assumes "d \<le> s" "s + k \<le> length p"
  shows "drop (s + k) (memmove p d s k) = drop (s + k) p"
proof -
  have "length (take d p @ take k (drop s p)) = d + k" using assms by simp
  then have "drop (s + k) (memmove p d s k) = drop (s - d) (drop (d + k) p)"
    using assms by (simp add: memmove_def)
  then show ?thesis using assms by (simp add: add.commute add.left_commute)
qed

lemma take_Suc_list_update:
  "j < length p \<Longrightarrow> take (Suc j) (p[j := c]) = take j p @ [c]"
  by (simp add: take_Suc_conv_app_nth)

lemma drop_list_update_before:
  "j < i \<Longrightarrow> drop i (p[j := c]) = drop i p"
  by simp

text \<open>A check of every number of a range, for one of them.\<close>

lemma list_all_uptD: "list_all P [a..<b] \<Longrightarrow> a \<le> x \<Longrightarrow> x < b \<Longrightarrow> P x"
  by (simp add: list_all_iff)

subsection \<open>Tables of 256 entries\<close>

text \<open>
  A \<open>const char T[256]\<close> of the source is written as it is there, in sixteen rows of sixteen;
  \<open>tab256 T c\<close> is \<open>T[c]\<close>.
\<close>

definition tab256 :: "'a list list \<Rightarrow> byte \<Rightarrow> 'a" where
  "tab256 t c = t ! (unat c div 16) ! (unat c mod 16)"

lemma unat_byte_less: "unat (c :: byte) < 256"
  using unsigned_less [of c] by simp

lemma upt_16: "[0..<16] = [0, 1, 2, 3, 4, 5, 6, 7, 8, 9, 10, 11, 12, 13, 14, 15 :: nat]"
  by (simp add: upt_rec)

text \<open>
  To know a table it is enough to compare it, row by row, with the tabulation of a function.
\<close>

lemma tab256_tabulate:
  assumes "t = map (\<lambda>h. map (\<lambda>l. g (16 * h + l)) [0..<16]) [0..<16]"
  shows "tab256 t c = g (unat c)"
proof -
  have "unat c div 16 < 16" using unat_byte_less [of c] by auto
  then show ?thesis
    unfolding tab256_def assms by simp
qed

lemma byte_eq_unat: "(c :: byte) = numeral k \<longleftrightarrow> unat c = unat (numeral k :: byte)"
  by (simp add: word_unat_eq_iff)

lemmas byte_unat = word_le_nat_alt byte_eq_unat

lemma word_numeral_cmp_1 [simp]:
  "numeral k \<le> (1 :: 'a::len word) \<longleftrightarrow> unat (numeral k :: 'a word) \<le> 1"
  "numeral k < (1 :: 'a::len word) \<longleftrightarrow> unat (numeral k :: 'a word) = 0"
  by (simp_all add: word_le_nat_alt word_less_nat_alt)

subsection \<open>Byte-driven parsers\<close>

text \<open>
  Several routines keep a parser state across calls and consume a message that arrives in pieces.
  Each is described by the effect of one byte: go on in a new state, or stop with a result.
  \<open>run_machine\<close> feeds a byte string and reports how many bytes were consumed.
\<close>

datatype ('s, 'r) outcome = Next 's | Stop 'r

fun run_machine :: "('s \<Rightarrow> 'a \<Rightarrow> ('s, 'r) outcome) \<Rightarrow> 's \<Rightarrow> 'a list \<Rightarrow> ('s, 'r) outcome \<times> nat" where
  "run_machine step s [] = (Next s, 0)"
| "run_machine step s (x # xs) =
     (case step s x of
        Next s' \<Rightarrow> (case run_machine step s' xs of (r, k) \<Rightarrow> (r, Suc k))
      | Stop r \<Rightarrow> (Stop r, 1))"

lemma run_machine_append:
  "run_machine step s (xs @ ys) =
     (case run_machine step s xs of
        (Next s', k) \<Rightarrow> (case run_machine step s' ys of (r, l) \<Rightarrow> (r, k + l))
      | (Stop r, k) \<Rightarrow> (Stop r, k))"
  by (induction xs arbitrary: s) (auto split: outcome.splits prod.splits)

lemma run_machine_le: "run_machine step s xs = (r, k) \<Longrightarrow> k \<le> length xs"
  by (induction xs arbitrary: s r k) (auto split: outcome.splits prod.splits)

lemma run_machine_Next_all: "run_machine step s xs = (Next s', k) \<Longrightarrow> k = length xs"
  by (induction xs arbitrary: s s' k) (auto split: outcome.splits prod.splits)

lemma run_machine_Stop_pos: "run_machine step s xs = (Stop r, k) \<Longrightarrow> 0 < k"
  by (cases xs) (auto split: outcome.splits prod.splits)

text \<open>
  The interface of a resumable parser: one byte keeps the invariant.  A client may then cut the
  input anywhere: what the parser returns for the whole is what it returns for the second piece
  from the state the first piece left.
\<close>

locale resumable =
  fixes step :: "'s \<Rightarrow> byte \<Rightarrow> ('s, 'r) outcome"
    and inv :: "'s \<Rightarrow> bool"
  assumes inv_step: "inv s \<Longrightarrow> step s c = Next s' \<Longrightarrow> inv s'"
begin

lemma inv_run: "inv s \<Longrightarrow> run_machine step s xs = (Next s', k) \<Longrightarrow> inv s'"
  by (induction xs arbitrary: s s' k)
     (auto split: outcome.splits prod.splits dest: inv_step)

lemma resume:
  assumes "run_machine step s xs = (Next s', k)"
  shows "run_machine step s (xs @ ys) = map_prod id ((+) (length xs)) (run_machine step s' ys)"
  using run_machine_Next_all [OF assms] assms
  by (auto simp: run_machine_append split: prod.splits)

lemma stop_prefix:
  assumes "run_machine step s xs = (Stop r, k)"
  shows "run_machine step s (xs @ ys) = (Stop r, k)"
  using assms by (simp add: run_machine_append)

end

text \<open>
  A parser that keeps its own index into a buffer \<open>p\<close>: a step on the byte at the index moves it by one
  and keeps the invariant, and what it returns is good.  Then so is what a whole run returns.
\<close>

locale indexed_parser =
  fixes step :: "'s \<Rightarrow> byte \<Rightarrow> ('s, 'r) outcome"
    and pos :: "'s \<Rightarrow> nat"
    and p :: bytes
    and inv :: "'s \<Rightarrow> bool"
    and good :: "'r \<Rightarrow> bool"
  assumes step_Next:
      "inv s \<Longrightarrow> pos s < length p \<Longrightarrow> step s (p ! pos s) = Next s' \<Longrightarrow> inv s' \<and> pos s' = Suc (pos s)"
    and step_Stop: "inv s \<Longrightarrow> pos s < length p \<Longrightarrow> step s (p ! pos s) = Stop x \<Longrightarrow> good x"
begin

lemma run_inv:
  assumes "inv s" "pos s \<le> n" "n \<le> length p"
  shows "case fst (run_machine step s (drop (pos s) (take n p))) of
           Next s' \<Rightarrow> inv s' \<and> pos s' = n | Stop x \<Rightarrow> good x"
  using assms
proof (induction "n - pos s" arbitrary: s)
  case 0
  then show ?case by simp
next
  case (Suc k)
  then have lt: "pos s < n" "pos s < length p" by auto
  then have d: "drop (pos s) (take n p) = p ! pos s # drop (Suc (pos s)) (take n p)"
    using Suc.prems(3) by (subst Cons_nth_drop_Suc [symmetric]) auto
  show ?case
  proof (cases "step s (p ! pos s)")
    case (Next s')
    then have s': "inv s'" "pos s' = Suc (pos s)" using step_Next [OF Suc.prems(1) lt(2)] by auto
    moreover have "k = n - pos s'" using s'(2) Suc.hyps(2) by simp
    ultimately show ?thesis
      using Suc.hyps(1) [of s'] Suc.prems(3) lt Next by (auto simp: d split: prod.splits)
  next
    case (Stop x)
    then show ?thesis using step_Stop [OF Suc.prems(1) lt(2)] by (simp add: d)
  qed
qed

end


text \<open>
  The contract of an encoder and a decoder that belong together: on the values of the domain the
  decoder inverts the encoder.  Then different values have different encodings, and the decoder
  finds the value that was encoded.
\<close>

locale codec =
  fixes dom_ok :: "'a \<Rightarrow> bool"
    and enc :: "'a \<Rightarrow> 'b"
    and dec :: "'b \<Rightarrow> 'c"
    and val :: "'a \<Rightarrow> 'c"
  assumes dec_enc: "dom_ok x \<Longrightarrow> dec (enc x) = val x"
begin

lemma enc_injective: "dom_ok x \<Longrightarrow> dom_ok y \<Longrightarrow> enc x = enc y \<Longrightarrow> val x = val y"
  using dec_enc [of x] dec_enc [of y] by simp

lemma dec_image: "dec ` enc ` Collect dom_ok = val ` Collect dom_ok"
  by (auto simp: dec_enc image_image)

end


end
