(* ===== verification/Http_Unchunk.thy ===== *)
theory Http_Unchunk
  imports Http_Tables
begin

text \<open>
  The chunked transfer decoder \<open>Unchunk\<close> of \<open>net/http/unchunk.c\<close>.  The state \<open>HttpUnchunker\<close>
  (\<open>net/http/http.h\<close>) and the buffer are passed and returned; one label of the \<open>switch\<close> is one
  definition, fall-through is a call.  The bulk copy of the label \<open>kHttpStateChunk\<close> is kept.
  The reference is a decoder that looks at one byte at a time, \<open>dechunk_step\<close>; the lemmas show that
  the buffer routine refines it, that it never touches bytes it has not consumed, that a message may
  be fed in pieces, and that on the messages of the grammar \<open>chunked\<close> it returns the decoded body.
\<close>

subsection \<open>State\<close>

datatype ChunkState =
    kHttpStateChunkStart | kHttpStateChunkSize | kHttpStateChunkExt | kHttpStateChunkLf1
  | kHttpStateChunk | kHttpStateChunkCr2 | kHttpStateChunkLf2
  | kHttpStateTrailerStart | kHttpStateTrailer | kHttpStateTrailerLf1 | kHttpStateTrailerLf2

record HttpUnchunker =
  u_t :: ChunkState
  u_i :: nat
  u_j :: nat
  u_m :: int

definition HttpUnchunker_zero :: HttpUnchunker where
  "HttpUnchunker_zero = \<lparr>u_t = kHttpStateChunkStart, u_i = 0, u_j = 0, u_m = 0\<rparr>"

text \<open>How one iteration of the loop ends.\<close>

datatype unchunk_ctl = Continue | Failed | Finished

subsection \<open>The labels of the switch\<close>

definition case_ChunkStart :: "HttpUnchunker \<Rightarrow> byte \<Rightarrow> HttpUnchunker \<times> unchunk_ctl" where
  "case_ChunkStart u c =
     (let u = u\<lparr>u_m := kHexToInt c\<rparr> in
      if u_m u = - 1 then (u, Failed) else (u\<lparr>u_t := kHttpStateChunkSize\<rparr>, Continue))"

definition case_ChunkLf1 :: "HttpUnchunker \<Rightarrow> byte \<Rightarrow> HttpUnchunker \<times> unchunk_ctl" where
  "case_ChunkLf1 u c =
     (if c \<noteq> ch_LF then (u, Failed)
      else (u\<lparr>u_t := (if u_m u \<noteq> 0 then kHttpStateChunk else kHttpStateTrailerStart)\<rparr>, Continue))"

definition case_ChunkExt :: "HttpUnchunker \<Rightarrow> byte \<Rightarrow> HttpUnchunker \<times> unchunk_ctl" where
  "case_ChunkExt u c =
     (if c = ch_CR then (u\<lparr>u_t := kHttpStateChunkLf1\<rparr>, Continue)
      else if c \<noteq> ch_LF then (u, Continue)
      else case_ChunkLf1 u c)"

definition case_ChunkSize :: "HttpUnchunker \<Rightarrow> byte \<Rightarrow> HttpUnchunker \<times> unchunk_ctl" where
  "case_ChunkSize u c =
     (let h = kHexToInt c in
      if h \<noteq> - 1 then
        (let u = u\<lparr>u_m := u_m u * 16 + h\<rparr> in
         if u_m u \<ge> 0x10000000000 then (u, Failed) else (u, Continue))
      else case_ChunkExt (u\<lparr>u_t := kHttpStateChunkExt\<rparr>) c)"

definition case_Chunk :: "HttpUnchunker \<Rightarrow> bytes \<Rightarrow> nat \<Rightarrow> byte \<Rightarrow> HttpUnchunker \<times> bytes" where
  "case_Chunk u p n c =
     (let p = p[u_j u := c];
          u = u\<lparr>u_j := u_j u + 1, u_m := u_m u - 1\<rparr>;
          s = min (nat (u_m u)) (n - u_i u);
          p = memmove p (u_j u) (u_i u) s;
          u = u\<lparr>u_i := u_i u + s, u_j := u_j u + s, u_m := u_m u - int s\<rparr>
      in (if u_m u = 0 then u\<lparr>u_t := kHttpStateChunkCr2\<rparr> else u, p))"

definition case_ChunkLf2 :: "HttpUnchunker \<Rightarrow> byte \<Rightarrow> HttpUnchunker \<times> unchunk_ctl" where
  "case_ChunkLf2 u c =
     (if c \<noteq> ch_LF then (u, Failed) else (u\<lparr>u_t := kHttpStateChunkStart\<rparr>, Continue))"

definition case_ChunkCr2 :: "HttpUnchunker \<Rightarrow> byte \<Rightarrow> HttpUnchunker \<times> unchunk_ctl" where
  "case_ChunkCr2 u c =
     (if c = ch_CR then (u\<lparr>u_t := kHttpStateChunkLf2\<rparr>, Continue) else case_ChunkLf2 u c)"

definition case_TrailerLf1 :: "HttpUnchunker \<Rightarrow> byte \<Rightarrow> HttpUnchunker \<times> unchunk_ctl" where
  "case_TrailerLf1 u c =
     (if c \<noteq> ch_LF then (u, Failed) else (u\<lparr>u_t := kHttpStateTrailerStart\<rparr>, Continue))"

definition case_Trailer :: "HttpUnchunker \<Rightarrow> byte \<Rightarrow> HttpUnchunker \<times> unchunk_ctl" where
  "case_Trailer u c =
     (if c = ch_CR then (u\<lparr>u_t := kHttpStateTrailerLf1\<rparr>, Continue)
      else if c \<noteq> ch_LF then (u, Continue)
      else case_TrailerLf1 u c)"

definition case_TrailerStart :: "HttpUnchunker \<Rightarrow> byte \<Rightarrow> HttpUnchunker \<times> unchunk_ctl" where
  "case_TrailerStart u c =
     (if c = ch_CR then (u\<lparr>u_t := kHttpStateTrailerLf2\<rparr>, Continue)
      else if c = ch_LF then (u, Finished)
      else case_Trailer (u\<lparr>u_t := kHttpStateTrailer\<rparr>) c)"

definition case_TrailerLf2 :: "HttpUnchunker \<Rightarrow> byte \<Rightarrow> HttpUnchunker \<times> unchunk_ctl" where
  "case_TrailerLf2 u c = (if c \<noteq> ch_LF then (u, Failed) else (u, Finished))"

lemmas unchunk_case_defs [model_defs] =
  case_ChunkStart_def case_ChunkSize_def case_ChunkExt_def case_ChunkLf1_def
  case_ChunkCr2_def case_ChunkLf2_def case_TrailerStart_def case_Trailer_def
  case_TrailerLf1_def case_TrailerLf2_def

subsection \<open>The loop\<close>

text \<open>One iteration, with the byte already fetched and the index advanced.\<close>

definition unchunk_iter ::
  "HttpUnchunker \<Rightarrow> bytes \<Rightarrow> nat \<Rightarrow> HttpUnchunker \<times> bytes \<times> unchunk_ctl" where
  "unchunk_iter u0 p n =
     (let c = p ! u_i u0;
          u = u0\<lparr>u_i := u_i u0 + 1\<rparr>;
          keep = (\<lambda>(u, ctl). (u, p, ctl))
      in case u_t u of
           kHttpStateChunkStart \<Rightarrow> keep (case_ChunkStart u c)
         | kHttpStateChunkSize \<Rightarrow> keep (case_ChunkSize u c)
         | kHttpStateChunkExt \<Rightarrow> keep (case_ChunkExt u c)
         | kHttpStateChunkLf1 \<Rightarrow> keep (case_ChunkLf1 u c)
         | kHttpStateChunk \<Rightarrow> (case case_Chunk u p n c of (u', p') \<Rightarrow> (u', p', Continue))
         | kHttpStateChunkCr2 \<Rightarrow> keep (case_ChunkCr2 u c)
         | kHttpStateChunkLf2 \<Rightarrow> keep (case_ChunkLf2 u c)
         | kHttpStateTrailerStart \<Rightarrow> keep (case_TrailerStart u c)
         | kHttpStateTrailer \<Rightarrow> keep (case_Trailer u c)
         | kHttpStateTrailerLf1 \<Rightarrow> keep (case_TrailerLf1 u c)
         | kHttpStateTrailerLf2 \<Rightarrow> keep (case_TrailerLf2 u c))"

lemma unchunk_iter_advances: "unchunk_iter u p n = (u', p', ctl) \<Longrightarrow> u_i u < u_i u'"
  by (auto simp: unchunk_iter_def case_Chunk_def unchunk_case_defs Let_def
           split: ChunkState.splits if_splits)

text \<open>
  What a call returns: the state, the buffer, \<open>Inl EBADMSG\<close> for \<open>-1\<close> or \<open>Inr k\<close> for a count
  (0 asks for more data), and the value stored through \<open>l\<close>.
\<close>

type_synonym unchunk_return = "HttpUnchunker \<times> bytes \<times> (errno + nat) \<times> nat option"

function Unchunk :: "HttpUnchunker \<Rightarrow> bytes \<Rightarrow> nat \<Rightarrow> unchunk_return" where
  "Unchunk u p n =
     (if u_i u < n then
        (case unchunk_iter u p n of
           (u', p', Continue) \<Rightarrow> Unchunk u' p' n
         | (u', p', Failed) \<Rightarrow> (u', p', Inl EBADMSG, None)
         | (u', p', Finished) \<Rightarrow>
             (u', if u_j u' < n then p'[u_j u' := ch_NUL] else p', Inr (u_i u'), Some (u_j u')))
      else (u, p, Inr 0, None))"
  by pat_completeness auto
termination
  by (relation "measure (\<lambda>(u, p, n). n - u_i u)")
     (auto dest!: sym [THEN unchunk_iter_advances] unchunk_iter_advances)

declare Unchunk.simps [simp del]

subsection \<open>A reference decoder, one byte at a time\<close>

type_synonym dechunk_state = "ChunkState \<times> int \<times> bytes"

definition dechunk_step :: "dechunk_state \<Rightarrow> byte \<Rightarrow> (dechunk_state, bytes option) outcome" where
  "dechunk_step s c = (case s of (t, m, out) \<Rightarrow>
     let ext = (if c = ch_CR then Next (kHttpStateChunkLf1, m, out)
                else if c \<noteq> ch_LF then Next (kHttpStateChunkExt, m, out)
                else Next (if m = 0 then kHttpStateTrailerStart else kHttpStateChunk, m, out));
         lf = (\<lambda>t'. if c = ch_LF then Next (t', m, out) else Stop None);
         trailer = (if c = ch_CR then Next (kHttpStateTrailerLf1, m, out)
                    else if c = ch_LF then Next (kHttpStateTrailerStart, m, out)
                    else Next (kHttpStateTrailer, m, out))
     in case t of
          kHttpStateChunkStart \<Rightarrow>
            if kHexToInt c = - 1 then Stop None else Next (kHttpStateChunkSize, kHexToInt c, out)
        | kHttpStateChunkSize \<Rightarrow>
            if kHexToInt c = - 1 then ext
            else if m * 16 + kHexToInt c \<ge> 2 ^ 40 then Stop None
            else Next (kHttpStateChunkSize, m * 16 + kHexToInt c, out)
        | kHttpStateChunkExt \<Rightarrow> ext
        | kHttpStateChunkLf1 \<Rightarrow> lf (if m = 0 then kHttpStateTrailerStart else kHttpStateChunk)
        | kHttpStateChunk \<Rightarrow>
            Next (if m = 1 then kHttpStateChunkCr2 else kHttpStateChunk, m - 1, out @ [c])
        | kHttpStateChunkCr2 \<Rightarrow>
            if c = ch_CR then Next (kHttpStateChunkLf2, m, out) else lf kHttpStateChunkStart
        | kHttpStateChunkLf2 \<Rightarrow> lf kHttpStateChunkStart
        | kHttpStateTrailerStart \<Rightarrow>
            if c = ch_CR then Next (kHttpStateTrailerLf2, m, out)
            else if c = ch_LF then Stop (Some out) else trailer
        | kHttpStateTrailer \<Rightarrow> trailer
        | kHttpStateTrailerLf1 \<Rightarrow> lf kHttpStateTrailerStart
        | kHttpStateTrailerLf2 \<Rightarrow> if c = ch_LF then Stop (Some out) else Stop None)"

definition dechunk_inv :: "dechunk_state \<Rightarrow> bool" where
  "dechunk_inv s = (case s of (t, m, out) \<Rightarrow> 0 \<le> m \<and> (t = kHttpStateChunk \<longrightarrow> 0 < m))"

lemma dechunk_inv_step:
  "dechunk_inv s \<Longrightarrow> dechunk_step s c = Next s' \<Longrightarrow> dechunk_inv s'"
  using kHexToInt_range [of c]
  by (auto simp: dechunk_inv_def dechunk_step_def Let_def split: ChunkState.splits if_splits)

interpretation dechunk: resumable dechunk_step dechunk_inv
  by unfold_locales (rule dechunk_inv_step)

lemma dechunk_data:
  assumes "0 < m" "int (length xs) \<le> m" "xs \<noteq> []"
  shows "run_machine dechunk_step (kHttpStateChunk, m, out) xs =
           (Next (if int (length xs) = m then kHttpStateChunkCr2 else kHttpStateChunk,
                  m - int (length xs), out @ xs), length xs)"
  using assms
proof (induction xs arbitrary: m out)
  case Nil
  then show ?case by simp
next
  case (Cons x xs)
  show ?case
  proof (cases "xs = []")
    case True
    then show ?thesis by (simp add: dechunk_step_def Let_def)
  next
    case False
    then have "1 \<le> length xs" by (simp add: Suc_le_eq)
    with Cons.prems have "1 < m" by simp
    with Cons.IH [of "m - 1" "out @ [x]"] Cons.prems False show ?thesis
      by (simp add: dechunk_step_def Let_def)
  qed
qed

subsection \<open>The buffer routine refines the reference\<close>

definition unchunk_wf :: "HttpUnchunker \<Rightarrow> bytes \<Rightarrow> nat \<Rightarrow> bool" where
  "unchunk_wf u p n \<longleftrightarrow>
     u_j u \<le> u_i u \<and> u_i u \<le> n \<and> n \<le> length p \<and> 0 \<le> u_m u \<and>
     (u_t u = kHttpStateChunk \<longrightarrow> 0 < u_m u) \<and>
     (u_t u \<noteq> kHttpStateChunkStart \<longrightarrow> u_j u < u_i u)"

definition unchunk_abs :: "HttpUnchunker \<Rightarrow> bytes \<Rightarrow> dechunk_state" where
  "unchunk_abs u p = (u_t u, u_m u, take (u_j u) p)"

text \<open>The loop invariant relating two states of the loop.\<close>

definition unchunk_sim :: "HttpUnchunker \<Rightarrow> bytes \<Rightarrow> nat \<Rightarrow> HttpUnchunker \<Rightarrow> bytes \<Rightarrow> bool" where
  "unchunk_sim u p n u' p' \<longleftrightarrow>
     unchunk_wf u' p' n \<and> length p' = length p \<and> u_i u \<le> u_i u' \<and>
     drop (u_i u') p' = drop (u_i u') p \<and>
     run_machine dechunk_step (unchunk_abs u p) (take (u_i u' - u_i u) (drop (u_i u) p)) =
       (Next (unchunk_abs u' p'), u_i u' - u_i u)"

lemma case_Chunk_sim:
  assumes wf: "unchunk_wf u p n" and lt: "u_i u < n" and t: "u_t u = kHttpStateChunk"
    and eq: "case_Chunk (u\<lparr>u_i := u_i u + 1\<rparr>) p n (p ! u_i u) = (u', p')"
  shows "unchunk_sim u p n u' p'"
proof -
  define i j m where "i = u_i u" and "j = u_j u" and "m = u_m u"
  define s where "s = min (nat (m - 1)) (n - Suc i)"
  define q where "q = p[j := p ! i]"
  have bnd: "j < i" "i < n" "n \<le> length p" "0 < m"
    using wf lt t by (auto simp: unchunk_wf_def i_def j_def m_def)
  have s_le: "Suc i + s \<le> n" "int (Suc s) \<le> m" using bnd by (auto simp: s_def)
  have p': "p' = memmove q (Suc j) (Suc i) s"
    and u': "u' = (let v = u\<lparr>u_i := Suc i + s, u_j := Suc j + s, u_m := m - int (Suc s)\<rparr>
                   in if int (Suc s) = m then v\<lparr>u_t := kHttpStateChunkCr2\<rparr> else v)"
    using eq by (auto simp: case_Chunk_def Let_def s_def q_def i_def j_def m_def)
  have flds: "u_i u' = Suc i + s" "u_j u' = Suc j + s" "u_m u' = m - int (Suc s)"
    "u_t u' = (if int (Suc s) = m then kHttpStateChunkCr2 else kHttpStateChunk)"
    using u' t by (auto simp: Let_def)
  have lq: "length q = length p" and dq: "drop (Suc i) q = drop (Suc i) p"
    and tq: "take (Suc j) q = take j p @ [p ! i]"
    using bnd by (auto simp: q_def take_Suc_list_update)
  have data: "take (Suc s) (drop i p) = p ! i # take s (drop (Suc i) p)"
    using bnd by (simp add: Cons_nth_drop_Suc [symmetric])
  have take': "take (Suc j + s) p' = take j p @ take (Suc s) (drop i p)"
    unfolding p' using bnd s_le lq dq tq by (subst take_memmove) (auto simp: data)
  have drop': "drop (Suc i + s) p' = drop (Suc i + s) p"
  proof -
    have "drop (Suc i + s) p' = drop (Suc i + s) q"
      unfolding p' using bnd s_le lq by (intro drop_memmove) auto
    then show ?thesis using bnd by (simp add: q_def)
  qed
  have len': "length p' = length p"
    unfolding p' using bnd s_le lq by (subst length_memmove) auto
  have "length (take (Suc s) (drop i p)) = Suc s" using bnd s_le by simp
  then have run: "run_machine dechunk_step (kHttpStateChunk, m, take j p) (take (Suc s) (drop i p)) =
      (Next (if int (Suc s) = m then kHttpStateChunkCr2 else kHttpStateChunk, m - int (Suc s),
             take j p @ take (Suc s) (drop i p)), Suc s)"
    using dechunk_data [of m "take (Suc s) (drop i p)" "take j p"] bnd s_le by auto
  have "unchunk_wf u' p' n"
    using bnd s_le len' by (auto simp: unchunk_wf_def flds)
  then show ?thesis
    using run take' drop' len' t
    by (simp add: unchunk_sim_def unchunk_abs_def flds i_def [symmetric] j_def [symmetric]
                  m_def [symmetric])
qed

lemma unchunk_iter_step:
  assumes wf: "unchunk_wf u p n" and lt: "u_i u < n" and t: "u_t u \<noteq> kHttpStateChunk"
    and eq: "unchunk_iter u p n = (u', p', ctl)"
  shows "p' = p \<and> u_i u' = Suc (u_i u) \<and> u_j u' = u_j u \<and>
         dechunk_step (unchunk_abs u p) (p ! u_i u) =
           (case ctl of Continue \<Rightarrow> Next (unchunk_abs u' p)
            | Failed \<Rightarrow> Stop None | Finished \<Rightarrow> Stop (Some (take (u_j u) p)))"
proof (cases "u_t u")
  case kHttpStateChunk
  with t show ?thesis by simp
qed (use eq in \<open>auto simp: unchunk_iter_def unchunk_case_defs dechunk_step_def unchunk_abs_def Let_def
                      split: if_splits\<close>)

lemma unchunk_iter_sim:
  assumes wf: "unchunk_wf u p n" and lt: "u_i u < n"
    and eq: "unchunk_iter u p n = (u', p', Continue)"
  shows "unchunk_sim u p n u' p'"
proof (cases "u_t u = kHttpStateChunk")
  case True
  then show ?thesis
    using eq case_Chunk_sim [OF wf lt True]
    by (auto simp: unchunk_iter_def Let_def split: prod.splits)
next
  case False
  have step: "p' = p" "u_i u' = Suc (u_i u)" "u_j u' = u_j u"
    "dechunk_step (unchunk_abs u p) (p ! u_i u) = Next (unchunk_abs u' p)"
    using unchunk_iter_step [OF wf lt False eq] by auto
  have "dechunk_inv (unchunk_abs u' p)"
    using dechunk_inv_step [OF _ step(4)] wf
    by (auto simp: dechunk_inv_def unchunk_abs_def unchunk_wf_def)
  then have "unchunk_wf u' p' n"
    using wf lt step by (auto simp: unchunk_wf_def dechunk_inv_def unchunk_abs_def)
  moreover have "take 1 (drop (u_i u) p) = [p ! u_i u]"
    using wf lt by (simp add: unchunk_wf_def take_Suc_conv_app_nth)
  ultimately show ?thesis
    using step by (simp add: unchunk_sim_def)
qed

lemma unchunk_sim_refl: "unchunk_wf u p n \<Longrightarrow> unchunk_sim u p n u p"
  by (simp add: unchunk_sim_def)

lemma unchunk_sim_run:
  assumes sim: "unchunk_sim u p n u' p'" and le: "u_i u' \<le> k" and k: "k \<le> n"
  shows "run_machine dechunk_step (unchunk_abs u p) (take (k - u_i u) (drop (u_i u) p)) =
           map_prod id ((+) (u_i u' - u_i u))
             (run_machine dechunk_step (unchunk_abs u' p') (take (k - u_i u') (drop (u_i u') p')))"
proof -
  define d where "d = u_i u' - u_i u"
  have i: "u_i u' = u_i u + d" using sim by (simp add: unchunk_sim_def d_def)
  have "take (k - u_i u) (drop (u_i u) p) = take (d + (k - u_i u')) (drop (u_i u) p)"
    using i le by simp
  also have "\<dots> = take d (drop (u_i u) p) @ take (k - u_i u') (drop (u_i u') p')"
    using sim i by (simp add: take_add unchunk_sim_def add.commute)
  finally show ?thesis
    using sim by (auto simp: run_machine_append unchunk_sim_def d_def split: prod.splits)
qed

text \<open>What a call promises, in terms of the reference decoder run over the unread bytes.\<close>

definition unchunk_post :: "HttpUnchunker \<Rightarrow> bytes \<Rightarrow> nat \<Rightarrow> unchunk_return \<Rightarrow> bool" where
  "unchunk_post u p n res = (case res of (u', p', ret, l) \<Rightarrow>
     case run_machine dechunk_step (unchunk_abs u p) (take (n - u_i u) (drop (u_i u) p)) of
       (Next s, k) \<Rightarrow>
         ret = Inr 0 \<and> l = None \<and> unchunk_abs u' p' = s \<and> u_i u' = n \<and> unchunk_wf u' p' n
     | (Stop None, k) \<Rightarrow> ret = Inl EBADMSG \<and> l = None
     | (Stop (Some out), k) \<Rightarrow>
         ret = Inr (u_i u + k) \<and> l = Some (length out) \<and> take (length out) p' = out \<and>
         u_i u' = u_i u + k)"

lemma unchunk_post_sim:
  assumes "unchunk_sim u p n u' p'" "unchunk_post u' p' n res"
  shows "unchunk_post u p n res"
proof -
  have "u_i u' \<le> n" "u_i u \<le> u_i u'" using assms(1) by (auto simp: unchunk_sim_def unchunk_wf_def)
  then show ?thesis
    using assms(2) unchunk_sim_run [OF assms(1), of n]
    by (auto simp: unchunk_post_def split: prod.splits outcome.splits option.splits)
qed

lemma unchunk_post_stop:
  assumes wf: "unchunk_wf u p n" and lt: "u_i u < n"
    and eq: "unchunk_iter u p n = (u', p', ctl)"
  shows "ctl = Failed \<Longrightarrow> unchunk_post u p n (u', p', Inl EBADMSG, None)"
    and "ctl = Finished \<Longrightarrow>
      unchunk_post u p n (u', if u_j u' < n then p'[u_j u' := ch_NUL] else p',
                          Inr (u_i u'), Some (u_j u'))"
proof -
  have hd: "take (n - u_i u) (drop (u_i u) p) = p ! u_i u # take (n - Suc (u_i u)) (drop (Suc (u_i u)) p)"
    using wf lt by (simp add: unchunk_wf_def Cons_nth_drop_Suc [symmetric] take_Cons' Suc_diff_Suc)
  have t: "ctl \<noteq> Continue \<Longrightarrow> u_t u \<noteq> kHttpStateChunk"
    using eq by (auto simp: unchunk_iter_def split: prod.splits)
  show "unchunk_post u p n (u', p', Inl EBADMSG, None)" if "ctl = Failed"
    using that unchunk_iter_step [OF wf lt t eq]
    by (simp add: unchunk_post_def hd)
  show "unchunk_post u p n (u', if u_j u' < n then p'[u_j u' := ch_NUL] else p',
                            Inr (u_i u'), Some (u_j u'))" if "ctl = Finished"
    using that unchunk_iter_step [OF wf lt t eq] wf
    by (auto simp: unchunk_post_def hd unchunk_wf_def)
qed

lemma Unchunk_post: "unchunk_wf u p n \<Longrightarrow> unchunk_post u p n (Unchunk u p n)"
proof (induction u p n rule: Unchunk.induct)
  case (1 u p n)
  show ?case
  proof (cases "u_i u < n")
    case lt: True
    obtain u' p' ctl where eq: "unchunk_iter u p n = (u', p', ctl)" by (cases "unchunk_iter u p n")
    show ?thesis
    proof (cases ctl)
      case Continue
      then have sim: "unchunk_sim u p n u' p'"
        using unchunk_iter_sim "1.prems" lt eq by blast
      then have "unchunk_wf u' p' n" by (simp add: unchunk_sim_def)
      then have "unchunk_post u' p' n (Unchunk u' p' n)"
        using "1.IH" lt eq Continue by auto
      then show ?thesis
        using unchunk_post_sim [OF sim] lt eq Continue by (subst Unchunk.simps) simp
    qed (use unchunk_post_stop [OF "1.prems" lt eq] lt eq in
           \<open>subst Unchunk.simps; simp\<close>)+
  next
    case False
    with "1.prems" show ?thesis
      by (subst Unchunk.simps) (auto simp: unchunk_post_def unchunk_wf_def)
  qed
qed

text \<open>Bytes that have not been consumed are never written, and the buffer keeps its size.\<close>

lemma Unchunk_frame:
  "unchunk_wf u p n \<Longrightarrow> Unchunk u p n = (u', p', ret, l) \<Longrightarrow>
   length p' = length p \<and> u_i u \<le> u_i u' \<and> u_i u' \<le> n \<and> u_j u' \<le> u_i u' \<and>
   drop (u_i u') p' = drop (u_i u') p"
proof (induction u p n arbitrary: u' p' ret l rule: Unchunk.induct)
  case (1 u p n)
  show ?case
  proof (cases "u_i u < n")
    case lt: True
    obtain v q ctl where eq: "unchunk_iter u p n = (v, q, ctl)" by (cases "unchunk_iter u p n")
    show ?thesis
    proof (cases "ctl = Continue")
      case True
      then have sim: "unchunk_sim u p n v q"
        using unchunk_iter_sim "1.prems"(1) lt eq by blast
      have "Unchunk v q n = (u', p', ret, l)"
        using "1.prems"(2) lt eq True by (subst (asm) Unchunk.simps) simp
      then have IH: "length p' = length q" "u_i u' \<le> n" "u_j u' \<le> u_i u'"
        "drop (u_i u') p' = drop (u_i u') q" and mono: "u_i v \<le> u_i u'"
        using "1.IH" [OF lt eq [symmetric]] True sim by (auto simp: unchunk_sim_def)
      have "drop (u_i u' - u_i v) (drop (u_i v) q) = drop (u_i u' - u_i v) (drop (u_i v) p)"
        using sim by (simp add: unchunk_sim_def)
      then show ?thesis
        using sim IH mono by (auto simp: unchunk_sim_def)
    next
      case False
      have t: "u_t u \<noteq> kHttpStateChunk"
        using eq False by (auto simp: unchunk_iter_def split: prod.splits)
      show ?thesis
        using unchunk_iter_step [OF "1.prems"(1) lt t eq] "1.prems" lt eq False
        by (subst (asm) Unchunk.simps)
           (auto simp: unchunk_wf_def split: unchunk_ctl.splits if_splits)
    qed
  next
    case False
    with "1.prems" show ?thesis
      by (subst (asm) Unchunk.simps) (auto simp: unchunk_wf_def)
  qed
qed

subsection \<open>The grammar of chunked bodies\<close>

text \<open>
  The messages the decoder is for: a chunk is a size in hexadecimal with an optional extension, an
  end of line, that many bytes, and an end of line; a chunk of size 0 is followed by the trailer, a
  list of non-empty lines, and an empty line.  An end of line is LF or CR LF.
\<close>

definition eol :: "bytes \<Rightarrow> bool" where
  "eol e \<longleftrightarrow> e = [ch_LF] \<or> e = [ch_CR, ch_LF]"

definition no_eol :: "bytes \<Rightarrow> bool" where
  "no_eol xs \<longleftrightarrow> ch_CR \<notin> set xs \<and> ch_LF \<notin> set xs"

definition hexacc :: "int \<Rightarrow> bytes \<Rightarrow> int" where
  "hexacc = foldl (\<lambda>a d. a * 16 + kHexToInt d)"

inductive chunk_head :: "bytes \<Rightarrow> int \<Rightarrow> bool" where
  chunk_headI:
    "ds \<noteq> [] \<Longrightarrow> \<forall>d\<in>set ds. kHexToInt d \<noteq> - 1 \<Longrightarrow> hexacc 0 ds < 2 ^ 40 \<Longrightarrow>
     no_eol ext \<Longrightarrow> ext = [] \<or> kHexToInt (hd ext) = - 1 \<Longrightarrow> eol e \<Longrightarrow>
     chunk_head (ds @ ext @ e) (hexacc 0 ds)"

inductive trailers :: "bytes \<Rightarrow> bool" where
  trailers_end: "eol e \<Longrightarrow> trailers e"
| trailers_line: "l \<noteq> [] \<Longrightarrow> no_eol l \<Longrightarrow> eol e \<Longrightarrow> trailers r \<Longrightarrow> trailers (l @ e @ r)"

inductive chunked :: "bytes \<Rightarrow> bytes \<Rightarrow> bool" where
  chunked_last: "chunk_head h 0 \<Longrightarrow> trailers r \<Longrightarrow> chunked (h @ r) []"
| chunked_more:
    "chunk_head h (int (length d)) \<Longrightarrow> d \<noteq> [] \<Longrightarrow> eol e \<Longrightarrow> chunked r b \<Longrightarrow>
     chunked (h @ d @ e @ r) (d @ b)"

text \<open>What may follow when the decoder is in a given state, with the body it still yields.\<close>

definition after_head :: "int \<Rightarrow> bytes \<Rightarrow> bytes \<Rightarrow> bool" where
  "after_head m r body \<longleftrightarrow>
     (if m = 0 then body = [] \<and> trailers r
      else \<exists>d e r' b. r = d @ e @ r' \<and> body = d @ b \<and> int (length d) = m \<and> eol e \<and> chunked r' b)"

fun residual :: "ChunkState \<Rightarrow> int \<Rightarrow> bytes \<Rightarrow> bytes \<Rightarrow> bool" where
  "residual kHttpStateChunkStart m zs body = chunked zs body"
| "residual kHttpStateChunkSize m zs body =
     (\<exists>ds ext e r. zs = ds @ ext @ e @ r \<and> (\<forall>d\<in>set ds. kHexToInt d \<noteq> - 1) \<and>
        (ds = [] \<or> hexacc m ds < 2 ^ 40) \<and> no_eol ext \<and> (ext = [] \<or> kHexToInt (hd ext) = - 1) \<and>
        eol e \<and> after_head (hexacc m ds) r body)"
| "residual kHttpStateChunkExt m zs body =
     (\<exists>ext e r. zs = ext @ e @ r \<and> no_eol ext \<and> eol e \<and> after_head m r body)"
| "residual kHttpStateChunkLf1 m zs body = (\<exists>r. zs = ch_LF # r \<and> after_head m r body)"
| "residual kHttpStateChunk m zs body =
     (\<exists>d e r b. zs = d @ e @ r \<and> body = d @ b \<and> int (length d) = m \<and> eol e \<and> chunked r b)"
| "residual kHttpStateChunkCr2 m zs body = (\<exists>e r. zs = e @ r \<and> eol e \<and> chunked r body)"
| "residual kHttpStateChunkLf2 m zs body = (\<exists>r. zs = ch_LF # r \<and> chunked r body)"
| "residual kHttpStateTrailerStart m zs body = (body = [] \<and> trailers zs)"
| "residual kHttpStateTrailer m zs body =
     (body = [] \<and> (\<exists>l e r. zs = l @ e @ r \<and> no_eol l \<and> eol e \<and> trailers r))"
| "residual kHttpStateTrailerLf1 m zs body = (body = [] \<and> (\<exists>r. zs = ch_LF # r \<and> trailers r))"
| "residual kHttpStateTrailerLf2 m zs body = (body = [] \<and> zs = [ch_LF])"

lemma hexacc_simps [simp]:
  "hexacc m [] = m"
  "hexacc m (d # ds) = hexacc (m * 16 + kHexToInt d) ds"
  by (simp_all add: hexacc_def)

lemma hexacc_mono: "0 \<le> m \<Longrightarrow> \<forall>d\<in>set ds. kHexToInt d \<noteq> - 1 \<Longrightarrow> m \<le> hexacc m ds"
proof (induction ds arbitrary: m)
  case (Cons d ds)
  have "0 \<le> kHexToInt d" using Cons.prems kHexToInt_range by auto
  then have "m \<le> m * 16 + kHexToInt d" "0 \<le> m * 16 + kHexToInt d" using Cons.prems by auto
  then show ?case using Cons.IH [of "m * 16 + kHexToInt d"] Cons.prems by simp
qed simp

lemma kHexToInt_eol [simp]: "kHexToInt 13 = - 1" "kHexToInt 10 = - 1"
  by (simp_all add: kHexToInt_eq)

lemma eol_prefix:
  "(\<exists>e r. c # zs = e @ r \<and> eol e \<and> P r) \<longleftrightarrow>
     (if c = ch_CR then \<exists>r. zs = ch_LF # r \<and> P r else c = ch_LF \<and> P zs)"
proof -
  have "(\<exists>e r. c # zs = e @ r \<and> eol e \<and> P r) \<longleftrightarrow>
        (\<exists>r. c # zs = [ch_LF] @ r \<and> P r) \<or> (\<exists>r. c # zs = [ch_CR, ch_LF] @ r \<and> P r)"
    unfolding eol_def by blast
  then show ?thesis by auto
qed

lemma ext_prefix: "(\<exists>l e r. c # zs = l @ e @ r \<and> no_eol l \<and> eol e \<and> P r) \<longleftrightarrow>
  (if c = ch_CR then \<exists>r. zs = ch_LF # r \<and> P r else if c = ch_LF then P zs
   else \<exists>l e r. zs = l @ e @ r \<and> no_eol l \<and> eol e \<and> P r)" (is "?L = ?R")
proof
  assume ?L
  then obtain l e r where *: "c # zs = l @ e @ r" "no_eol l" "eol e" "P r" by blast
  show ?R using * by (cases l) (auto simp: eol_def no_eol_def)
next
  assume R: ?R
  consider "c = ch_CR" | "c = ch_LF" | "c \<noteq> ch_CR" "c \<noteq> ch_LF" by blast
  then show ?L
  proof cases
    case 1
    then obtain r where "zs = ch_LF # r" "P r" using R by auto
    then have "c # zs = [] @ [ch_CR, ch_LF] @ r" "no_eol []" "eol [ch_CR, ch_LF]" "P r" using 1 by (auto simp: eol_def no_eol_def)
    then show ?thesis by blast
  next
    case 2
    then have "c # zs = [] @ [ch_LF] @ zs" "no_eol []" "eol [ch_LF]" "P zs" using R by (auto simp: eol_def no_eol_def)
    then show ?thesis by blast
  next
    case 3
    then obtain l e r where "zs = l @ e @ r" "no_eol l" "eol e" "P r" using R by auto
    then have "c # zs = (c # l) @ e @ r" "no_eol (c # l)" using 3 by (auto simp: no_eol_def)
    then show ?thesis using \<open>eol e\<close> \<open>P r\<close> by blast
  qed
qed


lemma trailers_Cons:
  "trailers (c # zs) \<longleftrightarrow>
     (if c = ch_CR then zs = [ch_LF] else if c = ch_LF then zs = []
      else \<exists>l e r. zs = l @ e @ r \<and> no_eol l \<and> eol e \<and> trailers r)" (is "?L = ?R")
proof
  assume ?L
  then show ?R
  proof (cases rule: trailers.cases)
    case trailers_end
    then show ?thesis by (auto simp: eol_def)
  next
    case (trailers_line l e r)
    then show ?thesis by (cases l) (auto simp: no_eol_def)
  qed
next
  assume R: ?R
  show ?L
  proof (cases "c = ch_CR \<or> c = ch_LF")
    case True
    then show ?thesis using R by (auto intro!: trailers_end simp: eol_def)
  next
    case False
    then obtain l e r where "zs = l @ e @ r" "no_eol l" "eol e" "trailers r" using R by auto
    then show ?thesis
      using False trailers_line [of "c # l" e r] by (simp add: no_eol_def)
  qed
qed

lemma not_trailers_Nil [simp]: "\<not> trailers []"
  by (auto elim!: trailers.cases simp: eol_def)

lemma chunked_after_head:
  "chunked xs body \<longleftrightarrow> (\<exists>h m r. xs = h @ r \<and> chunk_head h m \<and> after_head m r body)" (is "?L = ?R")
proof
  assume ?L
  then show ?R
  proof (cases rule: chunked.cases)
    case (chunked_last h r)
    then show ?thesis
      by (intro exI [of _ h] exI [of _ 0] exI [of _ r]) (simp add: after_head_def)
  next
    case (chunked_more h d e r b)
    then have "after_head (int (length d)) (d @ e @ r) body"
      unfolding after_head_def by auto
    with chunked_more show ?thesis by blast
  qed
next
  assume ?R
  then obtain h m r where *: "xs = h @ r" "chunk_head h m" "after_head m r body" by blast
  show ?L
  proof (cases "m = 0")
    case True
    with * show ?thesis by (auto simp: after_head_def intro: chunked_last)
  next
    case False
    with *(3) obtain d e r' b where
      "r = d @ e @ r'" "body = d @ b" "int (length d) = m" "eol e" "chunked r' b"
      by (auto simp: after_head_def)
    with * False show ?thesis by (auto intro!: chunked_more)
  qed
qed

lemma chunked_Cons:
  "chunked (c # zs) body \<longleftrightarrow>
     kHexToInt c \<noteq> - 1 \<and> residual kHttpStateChunkSize (kHexToInt c) zs body" (is "?L = ?R")
proof
  assume ?L
  then obtain h m r where *: "c # zs = h @ r" "chunk_head h m" "after_head m r body"
    by (auto simp: chunked_after_head)
  from *(2) show ?R
  proof (cases rule: chunk_head.cases)
    case (chunk_headI ds ext e)
    then obtain ds' where ds: "ds = c # ds'" using *(1) by (cases ds) auto
    then have "zs = ds' @ ext @ e @ r" using chunk_headI *(1) by auto
    then show ?thesis using chunk_headI *(3) ds by auto
  qed
next
  assume R: ?R
  then obtain ds ext e r where *: "zs = ds @ ext @ e @ r" "\<forall>d\<in>set ds. kHexToInt d \<noteq> - 1"
    "ds = [] \<or> hexacc (kHexToInt c) ds < 2 ^ 40" "no_eol ext" "ext = [] \<or> kHexToInt (hd ext) = - 1"
    "eol e" "after_head (hexacc (kHexToInt c) ds) r body" by auto
  have "hexacc 0 (c # ds) < 2 ^ 40"
    using *(3) kHexToInt_range [of c] R by auto
  then have "chunk_head ((c # ds) @ ext @ e) (hexacc 0 (c # ds))"
    using * R by (intro chunk_headI) auto
  then show ?L
    using * by (auto simp: chunked_after_head intro!: exI [of _ "(c # ds) @ ext @ e"])
qed

lemma not_chunked_Nil [simp]: "\<not> chunked [] body"
  by (auto simp: chunked_after_head elim!: chunk_head.cases)

lemma residual_ChunkSize_Cons:
  assumes "0 \<le> m"
  shows "residual kHttpStateChunkSize m (c # zs) body \<longleftrightarrow>
     (if kHexToInt c = - 1 then residual kHttpStateChunkExt m (c # zs) body
      else m * 16 + kHexToInt c < 2 ^ 40 \<and>
           residual kHttpStateChunkSize (m * 16 + kHexToInt c) zs body)" (is "?L = ?R")
proof
  assume ?L
  then obtain ds ext e r where *: "c # zs = ds @ ext @ e @ r" "\<forall>d\<in>set ds. kHexToInt d \<noteq> - 1"
    "ds = [] \<or> hexacc m ds < 2 ^ 40" "no_eol ext" "ext = [] \<or> kHexToInt (hd ext) = - 1"
    "eol e" "after_head (hexacc m ds) r body" by auto
  show ?R
  proof (cases ds)
    case Nil
    then have "kHexToInt c = - 1" using * by (cases ext) (auto simp: eol_def)
    moreover have "residual kHttpStateChunkExt m (c # zs) body"
      using * Nil unfolding residual.simps
      by (intro exI [of _ ext] exI [of _ e] exI [of _ r]) simp
    ultimately show ?thesis by simp
  next
    case (Cons d ds')
    then have d: "d = c" "zs = ds' @ ext @ e @ r" "kHexToInt c \<noteq> - 1" using * by auto
    have "m * 16 + kHexToInt c \<le> hexacc m ds"
      using hexacc_mono [of "m * 16 + kHexToInt c" ds'] * Cons d assms kHexToInt_range [of c] by auto
    moreover have "residual kHttpStateChunkSize (m * 16 + kHexToInt c) zs body"
      using * Cons d unfolding residual.simps
      by (intro exI [of _ ds'] exI [of _ ext] exI [of _ e] exI [of _ r]) simp
    ultimately show ?thesis using * Cons d by auto
  qed
next
  assume R: ?R
  show ?L
  proof (cases "kHexToInt c = - 1")
    case True
    then obtain ext e r where e: "c # zs = ext @ e @ r" "no_eol ext" "eol e" "after_head m r body"
      using R by auto
    then have "ext = [] \<or> kHexToInt (hd ext) = - 1" using True by (cases ext) auto
    then show ?thesis
      using e unfolding residual.simps
      by (intro exI [of _ "[]"] exI [of _ ext] exI [of _ e] exI [of _ r]) auto
  next
    case False
    then obtain ds ext e r where *: "zs = ds @ ext @ e @ r" "\<forall>d\<in>set ds. kHexToInt d \<noteq> - 1"
      "ds = [] \<or> hexacc (m * 16 + kHexToInt c) ds < 2 ^ 40" "no_eol ext"
      "ext = [] \<or> kHexToInt (hd ext) = - 1" "eol e"
      "after_head (hexacc (m * 16 + kHexToInt c) ds) r body" "m * 16 + kHexToInt c < 2 ^ 40"
      using R by auto
    then have "c # zs = (c # ds) @ ext @ e @ r" "hexacc m (c # ds) < 2 ^ 40" by auto
    then show ?thesis
      using * False unfolding residual.simps by (intro exI [of _ "c # ds"] exI [of _ ext] exI [of _ e] exI [of _ r]) auto
  qed
qed

lemma after_head_residual:
  "after_head m r body = residual (if m = 0 then kHttpStateTrailerStart else kHttpStateChunk) m r body"
  by (auto simp: after_head_def)

lemma residual_Chunk_Cons:
  assumes "0 < m"
  shows "residual kHttpStateChunk m (c # zs) body \<longleftrightarrow>
     (\<exists>b. body = c # b \<and> residual (if m = 1 then kHttpStateChunkCr2 else kHttpStateChunk) (m - 1) zs b)"
    (is "?L = ?R")
proof
  assume ?L
  then obtain d e r b where *: "c # zs = d @ e @ r" "body = d @ b" "int (length d) = m" "eol e" "chunked r b"
    by auto
  then obtain d' where d: "d = c # d'" using assms by (cases d) auto
  show ?R
  proof (intro exI [of _ "d' @ b"] conjI)
    show "residual (if m = 1 then kHttpStateChunkCr2 else kHttpStateChunk) (m - 1) zs (d' @ b)"
    proof (cases "m = 1")
      case True
      then have "d' = []" using * d by simp
      with * d True show ?thesis by auto
    next
      case False
      then show ?thesis
        using * d unfolding residual.simps if_not_P [OF False]
        by (intro exI [of _ d'] exI [of _ e] exI [of _ r] exI [of _ b]) simp
    qed
  qed (use * d in simp)
next
  assume ?R
  then obtain b where b: "body = c # b"
    "residual (if m = 1 then kHttpStateChunkCr2 else kHttpStateChunk) (m - 1) zs b" by blast
  have "\<exists>d e r b'. zs = d @ e @ r \<and> b = d @ b' \<and> int (length d) = m - 1 \<and> eol e \<and> chunked r b'"
  proof (cases "m = 1")
    case True
    then obtain e r where "zs = e @ r" "eol e" "chunked r b" using b(2) by auto
    then show ?thesis
      using True by (intro exI [of _ "[]"] exI [of _ e] exI [of _ r] exI [of _ b]) simp
  qed (use b(2) in simp)
  then obtain d e r b' where "zs = d @ e @ r" "b = d @ b'" "int (length d) = m - 1" "eol e" "chunked r b'"
    by blast
  then show ?L using b(1) unfolding residual.simps
    by (intro exI [of _ "c # d"] exI [of _ e] exI [of _ r] exI [of _ b']) auto
qed

text \<open>The derivative of the residual language by a byte is the step of the decoder.\<close>

lemma residual_Nil [simp]: "\<not> residual t m [] body"
  by (cases t) (auto simp: eol_def)

lemma residual_Cons:
  assumes "dechunk_inv (t, m, out)"
  shows "residual t m (c # zs) body \<longleftrightarrow>
     (case dechunk_step (t, m, out) c of
        Next (t', m', out') \<Rightarrow> \<exists>o' b. out' = out @ o' \<and> body = o' @ b \<and> residual t' m' zs b
      | Stop None \<Rightarrow> False
      | Stop (Some out') \<Rightarrow> zs = [] \<and> body = [])"
proof -
  have m: "0 \<le> m" "t = kHttpStateChunk \<Longrightarrow> 0 < m" using assms by (auto simp: dechunk_inv_def)
  have ext: "residual kHttpStateChunkExt m (c # zs) body \<longleftrightarrow>
      (if c = ch_CR then residual kHttpStateChunkLf1 m zs body
       else if c \<noteq> ch_LF then residual kHttpStateChunkExt m zs body
       else residual (if m = 0 then kHttpStateTrailerStart else kHttpStateChunk) m zs body)"
    unfolding residual.simps ext_prefix after_head_residual by simp
  have tr: "residual kHttpStateTrailer m (c # zs) body \<longleftrightarrow>
      (if c = ch_CR then residual kHttpStateTrailerLf1 m zs body
       else if c = ch_LF then residual kHttpStateTrailerStart m zs body
       else residual kHttpStateTrailer m zs body)"
    unfolding residual.simps ext_prefix by simp
  show ?thesis
  proof (cases t)
    case kHttpStateChunkStart
    then show ?thesis by (simp add: dechunk_step_def chunked_Cons del: residual.simps(2))
  next
    case kHttpStateChunkSize
    then show ?thesis
      unfolding kHttpStateChunkSize residual_ChunkSize_Cons [OF m(1)] ext
      by (simp add: dechunk_step_def Let_def del: residual.simps)
  next
    case kHttpStateChunkExt
    then show ?thesis
      unfolding kHttpStateChunkExt ext by (simp add: dechunk_step_def Let_def del: residual.simps)
  next
    case kHttpStateChunkLf1
    then show ?thesis by (auto simp: dechunk_step_def Let_def after_head_residual)
  next
    case kHttpStateChunk
    then show ?thesis
      unfolding kHttpStateChunk residual_Chunk_Cons [OF m(2) [OF kHttpStateChunk]]
      by (simp add: dechunk_step_def Let_def del: residual.simps)
  next
    case kHttpStateChunkCr2
    then show ?thesis
      unfolding kHttpStateChunkCr2 residual.simps eol_prefix by (auto simp: dechunk_step_def Let_def)
  next
    case kHttpStateTrailerStart
    then show ?thesis by (auto simp: dechunk_step_def Let_def trailers_Cons)
  next
    case kHttpStateTrailer
    then show ?thesis unfolding kHttpStateTrailer tr by (simp add: dechunk_step_def Let_def del: residual.simps)
  qed (auto simp: dechunk_step_def Let_def)
qed


lemma dechunk_step_out:
  "dechunk_step (t, m, out) c = Next (t', m', out') \<Longrightarrow> \<exists>o'. out' = out @ o'"
  "dechunk_step (t, m, out) c = Stop (Some out') \<Longrightarrow> out' = out"
  by (auto simp: dechunk_step_def Let_def split: ChunkState.splits if_splits)

text \<open>The reference decoder accepts exactly the residual language and returns its body.\<close>

lemma dechunk_complete:
  "dechunk_inv (t, m, out) \<Longrightarrow> residual t m zs body \<Longrightarrow>
   run_machine dechunk_step (t, m, out) zs = (Stop (Some (out @ body)), length zs)"
proof (induction zs arbitrary: t m out body)
  case (Cons c zs)
  note res = Cons.prems(2) [unfolded residual_Cons [OF Cons.prems(1)]]
  show ?case
  proof (cases "dechunk_step (t, m, out) c")
    case (Next s')
    obtain t' m' out' where s': "s' = (t', m', out')" by (cases s')
    with Next res obtain o' b where b: "out' = out @ o'" "body = o' @ b" "residual t' m' zs b" by auto
    have "dechunk_inv (t', m', out')" using dechunk_inv_step Cons.prems(1) Next s' by blast
    then show ?thesis using Cons.IH b Next s' by simp
  next
    case (Stop r)
    then obtain out' where "r = Some out'" "zs = []" "body = []" using res by (cases r) auto
    then show ?thesis using Stop dechunk_step_out(2) [of t m out c out'] by simp
  qed
qed simp

lemma dechunk_sound:
  "dechunk_inv (t, m, out) \<Longrightarrow> run_machine dechunk_step (t, m, out) xs = (Stop (Some res), k) \<Longrightarrow>
   \<exists>body. res = out @ body \<and> residual t m (take k xs) body"
proof (induction xs arbitrary: t m out k)
  case (Cons c xs)
  show ?case
  proof (cases "dechunk_step (t, m, out) c")
    case (Next s')
    obtain t' m' out' where s': "s' = (t', m', out')" by (cases s')
    with Cons.prems(2) Next obtain k' where
      k': "run_machine dechunk_step (t', m', out') xs = (Stop (Some res), k')" "k = Suc k'"
      by (auto split: prod.splits)
    have "dechunk_inv (t', m', out')" using dechunk_inv_step Cons.prems(1) Next s' by blast
    then obtain b where b: "res = out' @ b" "residual t' m' (take k' xs) b"
      using Cons.IH k'(1) by blast
    obtain o' where o': "out' = out @ o'" using dechunk_step_out(1) Next s' by blast
    have "residual t m (c # take k' xs) (o' @ b)"
      using residual_Cons [OF Cons.prems(1)] Next s' o' b(2) by auto
    then show ?thesis using b o' k' by auto
  next
    case (Stop r)
    then have r: "r = Some res" "k = 1" using Cons.prems(2) by auto
    then have "residual t m [c] []"
      using residual_Cons [OF Cons.prems(1), of c "[]" "[]"] Stop by simp
    then show ?thesis
      using r dechunk_step_out(2) [of t m out c res] Stop by (intro exI [of _ "[]"]) simp
  qed
qed simp

lemma unchunk_zero_wf: "n \<le> length p \<Longrightarrow> unchunk_wf HttpUnchunker_zero p n"
  by (simp add: unchunk_wf_def HttpUnchunker_zero_def)

lemma unchunk_zero_abs:
  "unchunk_abs HttpUnchunker_zero p = (kHttpStateChunkStart, 0, [])"
  "u_i HttpUnchunker_zero = 0"
  by (simp_all add: unchunk_abs_def HttpUnchunker_zero_def)


subsection \<open>Properties\<close>

text \<open>(C3) Decoding: from the zeroed state, on a buffer that starts with a chunked message, \<open>Unchunk\<close>
  reports exactly the length of that message, stores the length of the body through \<open>l\<close>, leaves
  the body at the front of the buffer and the bytes after the message where they were.\<close>

theorem Unchunk_decodes:
  assumes "chunked enc body"
  shows "case Unchunk HttpUnchunker_zero (enc @ rest) (length (enc @ rest)) of
           (u', p', ret, l) \<Rightarrow>
             ret = Inr (length enc) \<and> l = Some (length body) \<and>
             take (length body) p' = body \<and> drop (length enc) p' = rest"
proof -
  let ?p = "enc @ rest"
  obtain u' p' ret l where eq: "Unchunk HttpUnchunker_zero ?p (length ?p) = (u', p', ret, l)"
    by (cases "Unchunk HttpUnchunker_zero ?p (length ?p)")
  have wf: "unchunk_wf HttpUnchunker_zero ?p (length ?p)" by (simp add: unchunk_zero_wf)
  have "run_machine dechunk_step (kHttpStateChunkStart, 0, []) enc = (Stop (Some body), length enc)"
    using dechunk_complete [of kHttpStateChunkStart 0 "[]" enc body] assms
    by (simp add: dechunk_inv_def)
  then have "run_machine dechunk_step (kHttpStateChunkStart, 0, []) ?p = (Stop (Some body), length enc)"
    by (rule dechunk.stop_prefix)
  then have "ret = Inr (length enc)" "l = Some (length body)" "take (length body) p' = body"
    "u_i u' = length enc"
    using Unchunk_post [OF wf] eq by (auto simp: unchunk_post_def unchunk_zero_abs)
  then show ?thesis using Unchunk_frame [OF wf eq] eq by simp
qed

text \<open>(C6) Soundness: when \<open>Unchunk\<close> reports a complete message of \<open>k\<close> bytes, those bytes are a chunked
  message, and what is left at the front of the buffer is its body.\<close>

theorem Unchunk_sound:
  assumes "n \<le> length p" and "Unchunk HttpUnchunker_zero p n = (u', p', Inr k, l)" and "k \<noteq> 0"
  shows "\<exists>body. chunked (take k p) body \<and> l = Some (length body) \<and> take (length body) p' = body"
proof -
  have wf: "unchunk_wf HttpUnchunker_zero p n" using assms(1) by (rule unchunk_zero_wf)
  obtain r k' where run: "run_machine dechunk_step (kHttpStateChunkStart, 0, []) (take n p) = (r, k')"
    by fastforce
  have post: "case (r, k') of (Next s, k) \<Rightarrow> False | (Stop None, k) \<Rightarrow> False
     | (Stop (Some out), k') \<Rightarrow> k = k' \<and> l = Some (length out) \<and> take (length out) p' = out"
    using Unchunk_post [OF wf] assms(2,3) run
    by (auto simp: unchunk_post_def unchunk_zero_abs split: outcome.splits option.splits)
  then obtain out where out: "r = Stop (Some out)" "k = k'" "l = Some (length out)"
    "take (length out) p' = out" by (auto split: outcome.splits option.splits)
  have "k \<le> n" using run_machine_le [OF run] out by simp
  then have "take k (take n p) = take k p" by simp
  then show ?thesis
    using dechunk_sound [of kHttpStateChunkStart 0 "[]" "take n p" out k] run out
    by (auto simp: dechunk_inv_def)
qed

text \<open>(C7) Fragmentation: if a call on the first \<open>n\<close> bytes asks for more data, then going on from the
  state and buffer it left, once \<open>n'\<close> bytes are there, gives the same verdict, the same length and
  the same decoded bytes as one call on all of them.\<close>

theorem Unchunk_fragments:
  assumes wf: "unchunk_wf u p n" and n: "n \<le> n'" "n' \<le> length p"
    and first: "Unchunk u p n = (u1, p1, Inr 0, None)"
  shows "case Unchunk u1 p1 n' of (u2, p2, ret2, l2) \<Rightarrow>
         case Unchunk u p n' of (u3, p3, ret3, l3) \<Rightarrow>
           ret2 = ret3 \<and> l2 = l3 \<and>
           (\<forall>k. l3 = Some k \<longrightarrow> take k p2 = take k p3) \<and>
           (ret3 = Inr 0 \<longrightarrow> unchunk_abs u2 p2 = unchunk_abs u3 p3)"
proof -
  have wf': "unchunk_wf u p n'" using wf n by (auto simp: unchunk_wf_def)
  have step1: "unchunk_abs u1 p1 = s1 \<and> u_i u1 = n \<and> unchunk_wf u1 p1 n"
    if "run_machine dechunk_step (unchunk_abs u p) (take (n - u_i u) (drop (u_i u) p)) = (Next s1, k)" for s1 k
    using Unchunk_post [OF wf] first that by (auto simp: unchunk_post_def)
  obtain s1 k where run1:
    "run_machine dechunk_step (unchunk_abs u p) (take (n - u_i u) (drop (u_i u) p)) = (Next s1, k)"
    using Unchunk_post [OF wf] first
    by (auto simp: unchunk_post_def split: prod.splits outcome.splits option.splits
             dest: run_machine_Stop_pos)
  have frame: "length p1 = length p" "drop n p1 = drop n p" "u_i u \<le> n"
    using Unchunk_frame [OF wf first] step1 [OF run1] by auto
  have wf1: "unchunk_wf u1 p1 n'" using step1 [OF run1] n frame by (auto simp: unchunk_wf_def)
  have split: "take (n' - u_i u) (drop (u_i u) p) =
      take (n - u_i u) (drop (u_i u) p) @ take (n' - n) (drop n p1)"
  proof -
    have e: "n' - u_i u = (n - u_i u) + (n' - n)" "(n - u_i u) + u_i u = n" using n frame by auto
    show ?thesis unfolding e(1) take_add drop_drop e(2) using frame by simp
  qed
  have run: "run_machine dechunk_step (unchunk_abs u p) (take (n' - u_i u) (drop (u_i u) p)) =
      map_prod id ((+) (n - u_i u)) (run_machine dechunk_step (unchunk_abs u1 p1) (take (n' - u_i u1) (drop (u_i u1) p1)))"
    using dechunk.resume [OF run1, of "take (n' - n) (drop n p1)"] step1 [OF run1] split n frame by simp
  show ?thesis
    using Unchunk_post [OF wf'] Unchunk_post [OF wf1] run step1 [OF run1] frame
    by (auto simp: unchunk_post_def split: prod.splits outcome.splits option.splits
             dest: run_machine_Stop_pos)
qed

text \<open>(C8) Memory safety: a call keeps the buffer's size, never advances past the \<open>n\<close> bytes it was
  given, never lets the write index pass the read index, and leaves every byte it has not consumed
  as it was.\<close>

theorem Unchunk_in_place:
  assumes "unchunk_wf u p n"
  shows "case Unchunk u p n of (u', p', ret, l) \<Rightarrow>
           length p' = length p \<and> u_i u \<le> u_i u' \<and> u_i u' \<le> n \<and> u_j u' \<le> u_i u' \<and>
           drop (u_i u') p' = drop (u_i u') p"
  using Unchunk_frame [OF assms] by (auto split: prod.splits)

subsection \<open>Witnesses\<close>

lemma chunk_head_digit:
  "kHexToInt d \<noteq> - 1 \<Longrightarrow> eol e \<Longrightarrow> chunk_head (d # e) (kHexToInt d)"
  using chunk_headI [of "[d]" "[]" e] kHexToInt_range [of d] by (auto simp: no_eol_def)

lemma chunked_example: "chunked [0x31, 0x0A, 0x41, 0x0A, 0x30, 0x0A, 0x0A] [0x41]"
proof -
  have "chunk_head [0x31, 0x0A] 1" "chunk_head [0x30, 0x0A] 0"
    using chunk_head_digit [of "0x31" "[0x0A]"] chunk_head_digit [of "0x30" "[0x0A]"]
    by (simp_all add: kHexToInt_eq eol_def)
  then show ?thesis
    using chunked_last [of "[0x30, 0x0A]" "[0x0A]"]
      chunked_more [of "[0x31, 0x0A]" "[0x41]" "[0x0A]" "[0x30, 0x0A, 0x0A]" "[]"]
    by (simp add: eol_def trailers_end)
qed

theorem Unchunk_decodes_witness:
  "case Unchunk HttpUnchunker_zero [0x31, 0x0A, 0x41, 0x0A, 0x30, 0x0A, 0x0A, 0x58] 8 of
     (u', p', ret, l) \<Rightarrow>
       ret = Inr 7 \<and> l = Some 1 \<and> take 1 p' = [0x41] \<and> drop 7 p' = [0x58]"
  using Unchunk_decodes [OF chunked_example, of "[0x58]"] by (simp add: eval_nat_numeral)

lemmas unchunk_exec =
  Unchunk.simps unchunk_iter_def unchunk_case_defs case_Chunk_def memmove_def kHexToInt_eq
  HttpUnchunker_zero_def

theorem Unchunk_sound_witness:
  "\<exists>u' p'. Unchunk HttpUnchunker_zero [0x31, 0x0A, 0x41, 0x0A, 0x30, 0x0A, 0x0A] 7 =
             (u', p', Inr 7, Some 1) \<and>
           (\<exists>body. chunked (take 7 [0x31, 0x0A, 0x41, 0x0A, 0x30, 0x0A, 0x0A]) body \<and>
                   Some 1 = Some (length body) \<and> take (length body) p' = body)"
proof -
  obtain u' p' where
    eq: "Unchunk HttpUnchunker_zero [0x31, 0x0A, 0x41, 0x0A, 0x30, 0x0A, 0x0A] 7 = (u', p', Inr 7, Some 1)"
    by (simp add: unchunk_exec)
  with Unchunk_sound [of 7 _ u' p' 7 "Some 1", OF _ eq] show ?thesis by simp
qed

theorem Unchunk_fragments_witness:
  "case Unchunk HttpUnchunker_zero [0x31, 0x0A, 0x41, 0x0A, 0x30, 0x0A, 0x0A] 2 of
     (u1, p1, ret, l) \<Rightarrow>
       case Unchunk u1 p1 7 of (u2, p2, ret2, l2) \<Rightarrow> ret2 = Inr 7 \<and> l2 = Some 1 \<and> take 1 p2 = [0x41]"
proof -
  let ?p = "[0x31, 0x0A, 0x41, 0x0A, 0x30, 0x0A, 0x0A] :: bytes"
  obtain u1 p1 where first: "Unchunk HttpUnchunker_zero ?p 2 = (u1, p1, Inr 0, None)"
    by (simp add: unchunk_exec)
  have whole: "case Unchunk HttpUnchunker_zero ?p 7 of (u', p', ret, l) \<Rightarrow>
      ret = Inr 7 \<and> l = Some 1 \<and> take 1 p' = [0x41]"
    by (simp add: unchunk_exec)
  have wf: "unchunk_wf HttpUnchunker_zero ?p 2" by (rule unchunk_zero_wf) simp
  show ?thesis
    using Unchunk_fragments [OF wf _ _ first, of 7] whole first by (auto split: prod.splits)
qed

theorem Unchunk_in_place_witness:
  "case Unchunk HttpUnchunker_zero [0x33, 0x0A, 0x41, 0x42] 4 of (u', p', ret, l) \<Rightarrow>
     length p' = 4 \<and> u_i u' \<le> 4 \<and> u_j u' \<le> u_i u'"
  using Unchunk_in_place [OF unchunk_zero_wf, of 4 "[0x33, 0x0A, 0x41, 0x42]"]
  by (auto split: prod.splits)

end
