(* ===== verification/Bisect.thy ===== *)
theory Bisect
  imports Cosmo_Prelude
begin

text \<open>
  Binary searches.  The sources contain many copies of one loop over a sorted table, with
  \<open>m = (l & r) + ((l ^ r) >> 1)\<close> as the middle.  \<open>bisection\<close> is what the copies have in common: how the
  loop goes on after the comparison at the middle, and that the comparison is monotone over the table.
\<close>

lemma add_xor_and: "l + r = (l XOR r) + 2 * (l AND r)" for l r :: int
proof (induction l arbitrary: r rule: int_bit_induct)
  case zero
  show ?case by simp
next
  case minus
  show ?case by (simp add: not_int_def)
next
  case (even k)
  show ?case
    using even.IH [of "r div 2"]
    by (subst xor_rec, subst and_rec) (cases "even r"; auto elim!: evenE oddE)
next
  case (odd k)
  show ?case
    using odd.IH [of "r div 2"]
    by (subst xor_rec, subst and_rec) (cases "even r"; auto elim!: evenE oddE)
qed

lemma average_floor: "(l AND r) + drop_bit 1 (l XOR r) = (l + r) div 2" for l r :: int
  by (simp add: drop_bit_eq_div add_xor_and [of l r])

text \<open>
  \<open>cmp i\<close> compares entry \<open>i\<close> with the key that is looked for: negative when the entry is smaller.
\<close>

locale bisection =
  fixes n :: nat and cmp :: "nat \<Rightarrow> int" and search :: "int \<Rightarrow> int \<Rightarrow> 'r" and hit :: "nat \<Rightarrow> 'r" and miss :: 'r
  assumes step: "0 \<le> l \<Longrightarrow> r < int n \<Longrightarrow> search l r =
      (if l \<le> r then
         (let m = (l + r) div 2 in
          if cmp (nat m) < 0 then search (m + 1) r
          else if cmp (nat m) > 0 then search l (m - 1)
          else hit (nat m))
       else miss)"
    and lower: "i \<le> j \<Longrightarrow> j < n \<Longrightarrow> cmp j < 0 \<Longrightarrow> cmp i < 0"
    and upper: "i \<le> j \<Longrightarrow> j < n \<Longrightarrow> cmp i > 0 \<Longrightarrow> cmp j > 0"
begin

lemma search_range:
  assumes "0 \<le> l" "r < int n" "\<And>i. i < n \<Longrightarrow> cmp i = 0 \<Longrightarrow> l \<le> int i \<and> int i \<le> r"
  shows "(\<exists>i < n. cmp i = 0 \<and> search l r = hit i) \<or> (\<forall>i < n. cmp i \<noteq> 0) \<and> search l r = miss"
  using assms
proof (induction "nat (r - l + 1)" arbitrary: l r rule: less_induct)
  case less
  show ?case
  proof (cases "l \<le> r")
    case False
    then have "search l r = miss" using less.prems(1,2) by (subst step) simp_all
    moreover have "\<forall>i < n. cmp i \<noteq> 0" using False less.prems(3) by force
    ultimately show ?thesis by blast
  next
    case True
    define m where "m = (l + r) div 2"
    have m: "l \<le> m" "m \<le> r" using True by (simp_all add: m_def)
    then have mn: "nat m < n" "int (nat m) = m" using less.prems(1,2) by simp_all
    have s: "search l r = (if cmp (nat m) < 0 then search (m + 1) r
        else if cmp (nat m) > 0 then search l (m - 1) else hit (nat m))"
      using True less.prems(1,2) by (subst step) (simp_all add: m_def Let_def)
    consider "cmp (nat m) < 0" | "cmp (nat m) > 0" | "cmp (nat m) = 0" by linarith
    then show ?thesis
    proof cases
      case 1
      have "m + 1 \<le> int i \<and> int i \<le> r" if "i < n" "cmp i = 0" for i
        using lower [of i "nat m"] 1 that mn less.prems(3) [OF that] by (cases "i \<le> nat m") auto
      then show ?thesis using less.hyps [of r "m + 1"] 1 s m less.prems by simp
    next
      case 2
      have "l \<le> int i \<and> int i \<le> m - 1" if "i < n" "cmp i = 0" for i
        using upper [of "nat m" i] 2 that mn less.prems(3) [OF that] by (cases "nat m \<le> i") auto
      then show ?thesis using less.hyps [of "m - 1" l] 2 s m less.prems by simp
    next
      case 3
      then show ?thesis using s mn by auto
    qed
  qed
qed

lemma search_all:
  "(\<exists>i < n. cmp i = 0 \<and> search 0 (int n - 1) = hit i) \<or> (\<forall>i < n. cmp i \<noteq> 0) \<and> search 0 (int n - 1) = miss"
  by (rule search_range) auto

end

text \<open>The comparison with a key, for tables that are sorted by their keys.\<close>

definition compare :: "'k :: linorder \<Rightarrow> 'k \<Rightarrow> int" where
  "compare a b = (if a < b then - 1 else if a > b then 1 else 0)"

lemma compare_simps [simp]:
  "compare a b < 0 \<longleftrightarrow> a < b" "0 < compare a b \<longleftrightarrow> b < a" "compare a b = 0 \<longleftrightarrow> a = b"
  by (auto simp: compare_def)

lemma sorted_keys_mono:
  assumes "sorted ks" "i \<le> j" "j < length ks"
  shows "ks ! j < k \<Longrightarrow> ks ! i < k" "k < ks ! i \<Longrightarrow> k < ks ! j"
  using sorted_nth_mono [OF assms] by (auto elim: order.strict_trans1 order.strict_trans2)

text \<open>A search for the value of a key in a table of pairs that is sorted by its keys.\<close>

locale table_search =
  fixes t :: "('k :: linorder \<times> 'v) list" and search :: "'k \<Rightarrow> int \<Rightarrow> int \<Rightarrow> 'r" and hit :: "'v \<Rightarrow> 'r" and miss :: 'r
  assumes loop: "0 \<le> l \<Longrightarrow> r < int (length t) \<Longrightarrow> search k l r =
      (if l \<le> r then
         (let m = (l + r) div 2 in
          if fst (t ! nat m) < k then search k (m + 1) r
          else if fst (t ! nat m) > k then search k l (m - 1)
          else hit (snd (t ! nat m)))
       else miss)"
    and sorted_table: "sorted (map fst t)"
    and single: "(k, v) \<in> set t \<Longrightarrow> (k, w) \<in> set t \<Longrightarrow> v = w"
begin

lemma table_mono:
  assumes "i \<le> j" "j < length t"
  shows "fst (t ! j) < k \<Longrightarrow> fst (t ! i) < k" "k < fst (t ! i) \<Longrightarrow> k < fst (t ! j)"
  using sorted_keys_mono [OF sorted_table, of i j k] assms by simp_all

lemma map_of_nth: "i < length t \<Longrightarrow> map_of t (fst (t ! i)) = Some (snd (t ! i))"
proof -
  assume i: "i < length t"
  then have "map_of t (fst (t ! i)) \<noteq> None" using nth_mem [OF i] by (auto simp: map_of_eq_None_iff)
  then obtain v where v: "map_of t (fst (t ! i)) = Some v" by blast
  moreover have "v = snd (t ! i)" using single map_of_SomeD [OF v] nth_mem [OF i] by (metis prod.collapse)
  ultimately show ?thesis by simp
qed

end

sublocale table_search \<subseteq> bisection "length t" "\<lambda>i. compare (fst (t ! i)) k" "search k" "\<lambda>i. hit (snd (t ! i))" miss for k
proof unfold_locales
  fix l r :: int
  assume "0 \<le> l" "r < int (length t)"
  then show "search k l r = (if l \<le> r then
         (let m = (l + r) div 2 in
          if compare (fst (t ! nat m)) k < 0 then search k (m + 1) r
          else if compare (fst (t ! nat m)) k > 0 then search k l (m - 1)
          else hit (snd (t ! nat m)))
       else miss)"
    unfolding compare_simps by (rule loop)
qed (auto intro: table_mono)

context table_search
begin

lemma search_map_of: "search k 0 (int (length t) - 1) = (case map_of t k of None \<Rightarrow> miss | Some v \<Rightarrow> hit v)"
  using search_all [of k]
proof
  assume "\<exists>i < length t. compare (fst (t ! i)) k = 0 \<and> search k 0 (int (length t) - 1) = hit (snd (t ! i))"
  then obtain i where i: "i < length t" "fst (t ! i) = k" "search k 0 (int (length t) - 1) = hit (snd (t ! i))"
    by auto
  with map_of_nth [OF i(1)] show ?thesis by simp
next
  assume a: "(\<forall>i < length t. compare (fst (t ! i)) k \<noteq> 0) \<and> search k 0 (int (length t) - 1) = miss"
  then have "\<forall>e \<in> set t. fst e \<noteq> k" by (metis compare_simps(3) in_set_conv_nth)
  then have "map_of t k = None" by (auto simp: map_of_eq_None_iff)
  with a show ?thesis by simp
qed

end

end
