(* ===== verification/Http_Names.thy ===== *)
theory Http_Names
  imports Http_Tables Bisect
begin

text \<open>
  The names of HTTP methods, header fields and status codes: the perfect hash lookups that gperf
  made (\<open>gethttpmethod.inc\<close>, \<open>gethttpheader.inc\<close>) behind \<open>GetHttpMethod\<close> and \<open>GetHttpHeader\<close>, the
  tables in the other direction (\<open>khttpmethod.c\<close>, \<open>gethttpheadername.c\<close>), the binary search of
  \<open>GetHttpReason\<close>, and \<open>kToLower\<close>.  The lemmas show that the hash lookups find a name exactly when
  it equals, without regard to case, the name that the reverse table gives to the code.
\<close>

subsection \<open>Case folding\<close>

definition kToLower :: "byte \<Rightarrow> byte" where
  "kToLower = tab256 [
    [0, 1, 2, 3, 4, 5, 6, 7, 8, 9, 10, 11, 12, 13, 14, 15],
    [16, 17, 18, 19, 20, 21, 22, 23, 24, 25, 26, 27, 28, 29, 30, 31],
    [32, 33, 34, 35, 36, 37, 38, 39, 40, 41, 42, 43, 44, 45, 46, 47],
    [48, 49, 50, 51, 52, 53, 54, 55, 56, 57, 58, 59, 60, 61, 62, 63],
    [64, 97, 98, 99, 100, 101, 102, 103, 104, 105, 106, 107, 108, 109, 110, 111],
    [112, 113, 114, 115, 116, 117, 118, 119, 120, 121, 122, 91, 92, 93, 94, 95],
    [96, 97, 98, 99, 100, 101, 102, 103, 104, 105, 106, 107, 108, 109, 110, 111],
    [112, 113, 114, 115, 116, 117, 118, 119, 120, 121, 122, 123, 124, 125, 126, 127],
    [128, 129, 130, 131, 132, 133, 134, 135, 136, 137, 138, 139, 140, 141, 142, 143],
    [144, 145, 146, 147, 148, 149, 150, 151, 152, 153, 154, 155, 156, 157, 158, 159],
    [160, 161, 162, 163, 164, 165, 166, 167, 168, 169, 170, 171, 172, 173, 174, 175],
    [176, 177, 178, 179, 180, 181, 182, 183, 184, 185, 186, 187, 188, 189, 190, 191],
    [192, 193, 194, 195, 196, 197, 198, 199, 200, 201, 202, 203, 204, 205, 206, 207],
    [208, 209, 210, 211, 212, 213, 214, 215, 216, 217, 218, 219, 220, 221, 222, 223],
    [224, 225, 226, 227, 228, 229, 230, 231, 232, 233, 234, 235, 236, 237, 238, 239],
    [240, 241, 242, 243, 244, 245, 246, 247, 248, 249, 250, 251, 252, 253, 254, 255]]"

text \<open>The byte at index \<open>k\<close> of a C string, which ends with a NUL.\<close>

definition cstr_at :: "bytes \<Rightarrow> nat \<Rightarrow> byte" where
  "cstr_at s k = (if k < length s then s ! k else ch_NUL)"

fun gperf_case_strncmp :: "bytes \<Rightarrow> bytes \<Rightarrow> nat \<Rightarrow> int" where
  "gperf_case_strncmp s1 s2 0 = 0"
| "gperf_case_strncmp s1 s2 (Suc n) =
     (let c1 = kToLower (cstr_at s1 0); c2 = kToLower (cstr_at s2 0) in
      if c1 \<noteq> ch_NUL \<and> c1 = c2 then gperf_case_strncmp (tl s1) (tl s2) n
      else uint c1 - uint c2)"

subsection \<open>Methods\<close>

definition kHttpMethod :: "string list" where
  "kHttpMethod = [''WUT'', ''GET'', ''HEAD'', ''POST'', ''PUT'', ''DELETE'', ''OPTIONS'', ''CONNECT'', ''TRACE'', ''COPY'', ''LOCK'', ''MERGE'', ''MKCOL'', ''MOVE'', ''NOTIFY'', ''PATCH'', ''REPORT'', ''UNLOCK'']"

definition HttpMethod_asso_values :: "byte \<Rightarrow> nat" where
  "HttpMethod_asso_values = tab256 [
    [26, 26, 26, 26, 26, 26, 26, 26, 26, 26, 26, 26, 26, 26, 26, 26],
    [26, 26, 26, 26, 26, 26, 26, 26, 26, 26, 26, 26, 26, 26, 26, 26],
    [26, 26, 26, 26, 26, 26, 26, 26, 26, 26, 26, 26, 26, 26, 26, 26],
    [26, 26, 26, 26, 26, 26, 26, 26, 26, 26, 26, 26, 26, 26, 26, 26],
    [26, 0, 26, 5, 15, 0, 26, 5, 0, 26, 26, 10, 15, 10, 0, 5],
    [0, 26, 10, 26, 5, 0, 26, 26, 26, 26, 26, 26, 26, 26, 26, 26],
    [26, 0, 26, 5, 15, 0, 26, 5, 0, 26, 26, 10, 15, 10, 0, 5],
    [0, 26, 10, 26, 5, 0, 26, 26, 26, 26, 26, 26, 26, 26, 26, 26],
    [26, 26, 26, 26, 26, 26, 26, 26, 26, 26, 26, 26, 26, 26, 26, 26],
    [26, 26, 26, 26, 26, 26, 26, 26, 26, 26, 26, 26, 26, 26, 26, 26],
    [26, 26, 26, 26, 26, 26, 26, 26, 26, 26, 26, 26, 26, 26, 26, 26],
    [26, 26, 26, 26, 26, 26, 26, 26, 26, 26, 26, 26, 26, 26, 26, 26],
    [26, 26, 26, 26, 26, 26, 26, 26, 26, 26, 26, 26, 26, 26, 26, 26],
    [26, 26, 26, 26, 26, 26, 26, 26, 26, 26, 26, 26, 26, 26, 26, 26],
    [26, 26, 26, 26, 26, 26, 26, 26, 26, 26, 26, 26, 26, 26, 26, 26],
    [26, 26, 26, 26, 26, 26, 26, 26, 26, 26, 26, 26, 26, 26, 26, 26]]"

definition HttpMethod_wordlist :: "(string \<times> nat) list" where
  "HttpMethod_wordlist =
    [('''', 0), ('''', 0), ('''', 0), (''PUT'', 4), (''HEAD'', 2), (''PATCH'', 15), (''UNLOCK'', 17),
     ('''', 0), (''GET'', 1), (''POST'', 3), ('''', 0), (''NOTIFY'', 14), (''OPTIONS'', 6),
     ('''', 0), (''COPY'', 9), (''MERGE'', 11), (''REPORT'', 16), (''CONNECT'', 7), ('''', 0),
     (''MOVE'', 13), (''TRACE'', 8), (''DELETE'', 5), ('''', 0), ('''', 0), (''LOCK'', 10),
     (''MKCOL'', 12)]"

definition HttpMethod_hash :: "bytes \<Rightarrow> nat" where
  "HttpMethod_hash s =
     length s + HttpMethod_asso_values (s ! 1) + HttpMethod_asso_values (s ! 0)"

text \<open>The test both generated lookups make on the slot that the hash selects.\<close>

definition gperf_match :: "bytes \<Rightarrow> bytes \<Rightarrow> bool" where
  "gperf_match s0 s \<longleftrightarrow>
     (cstr_at s0 0 XOR cstr_at s 0) AND NOT 32 = 0 \<and>
     gperf_case_strncmp s0 s (length s0) = 0 \<and> cstr_at s (length s0) = ch_NUL"

definition LookupHttpMethod :: "bytes \<Rightarrow> (string \<times> nat) option" where
  "LookupHttpMethod s0 =
     (if length s0 \<le> 7 \<and> length s0 \<ge> 3 then
        (let key = HttpMethod_hash s0 in
         if key \<le> 25 then
           (let slot = HttpMethod_wordlist ! key in
            if gperf_match s0 (str (fst slot)) then Some slot else None)
         else None)
      else None)"

definition GetHttpMethod :: "cstr \<Rightarrow> nat" where
  "GetHttpMethod s0 =
     (case LookupHttpMethod (arg_bytes s0) of Some slot \<Rightarrow> snd slot | None \<Rightarrow> 0)"

subsection \<open>Header fields\<close>

definition HttpHeader_names :: "(nat \<times> string) list" where
  "HttpHeader_names =
    [(0, ''Host''), (1, ''Cache-Control''), (2, ''Connection''), (3, ''Accept''),
     (4, ''Accept-Language''), (5, ''Accept-Encoding''), (6, ''User-Agent''), (7, ''Referer''),
     (8, ''X-Forwarded-For''), (9, ''Origin''), (10, ''Upgrade-Insecure-Requests''),
     (11, ''Pragma''), (12, ''Cookie''), (13, ''DNT''), (14, ''Sec-GPC''), (15, ''From''),
     (16, ''If-Modified-Since''), (17, ''X-Requested-With''), (18, ''X-Forwarded-Host''),
     (19, ''X-Forwarded-Proto''), (20, ''X-CSRF-Token''), (21, ''Save-Data''), (22, ''Range''),
     (23, ''Content-Length''), (24, ''Content-Type''), (25, ''Vary''), (26, ''Date''),
     (27, ''Server''), (28, ''Expires''), (29, ''Content-Encoding''), (30, ''Last-Modified''),
     (31, ''ETag''), (32, ''Allow''), (33, ''Content-Range''), (34, ''Accept-Charset''),
     (35, ''Access-Control-Allow-Credentials''), (36, ''Access-Control-Allow-Headers''),
     (37, ''Access-Control-Allow-Methods''), (38, ''Access-Control-Allow-Origin''),
     (39, ''Access-Control-MaxAge''), (40, ''Access-Control-Method''),
     (41, ''Access-Control-RequestHeaders''), (42, ''Access-Control-Request-Method''),
     (43, ''Access-Control-Request-Methods''), (44, ''Age''), (45, ''Authorization''),
     (46, ''Content-Base''), (47, ''Content-Description''), (48, ''Content-Disposition''),
     (49, ''Content-Language''), (50, ''Content-Location''), (51, ''Content-MD5''), (52, ''Expect''),
     (53, ''If-Match''), (54, ''If-None-Match''), (55, ''If-Range''), (56, ''If-Unmodified-Since''),
     (57, ''Keep-Alive''), (58, ''Link''), (59, ''Location''), (60, ''Max-Forwards''),
     (61, ''Proxy-Authenticate''), (62, ''Proxy-Authorization''), (63, ''Proxy-Connection''),
     (64, ''Public''), (65, ''Retry-After''), (66, ''TE''), (67, ''Trailer''),
     (68, ''Transfer-Encoding''), (69, ''Upgrade''), (70, ''Warning''), (71, ''WWW-Authenticate''),
     (72, ''Via''), (73, ''Strict-Transport-Security''), (74, ''X-Frame-Options''),
     (75, ''X-Content-Type-Options''), (76, ''Alt-Svc''), (77, ''Referrer-Policy''),
     (78, ''X-XSS-Protection''), (79, ''Accept-Ranges''), (80, ''Set-Cookie''), (81, ''Sec-CH-UA''),
     (82, ''Sec-CH-UA-Mobile''), (83, ''Sec-Fetch-Site''), (84, ''Sec-Fetch-Mode''),
     (85, ''Sec-Fetch-User''), (86, ''Sec-Fetch-Dest''), (87, ''CF-RAY''), (88, ''CF-Visitor''),
     (89, ''CF-Connecting-IP''), (90, ''CF-IPCountry''), (92, ''CDN-Loop''),
     (91, ''Sec-CH-UA-Platform'')]"

definition GetHttpHeaderName :: "nat \<Rightarrow> string option" where
  "GetHttpHeaderName = map_of HttpHeader_names"

definition HttpHeader_asso_values :: "byte \<Rightarrow> nat" where
  "HttpHeader_asso_values = tab256 [
    [182, 182, 182, 182, 182, 182, 182, 182, 182, 182, 182, 182, 182, 182, 182, 182],
    [182, 182, 182, 182, 182, 182, 182, 182, 182, 182, 182, 182, 182, 182, 182, 182],
    [182, 182, 182, 182, 182, 182, 182, 182, 182, 182, 182, 182, 182, 35, 182, 182],
    [182, 182, 182, 182, 182, 5, 182, 182, 182, 182, 182, 182, 182, 182, 182, 182],
    [182, 15, 182, 30, 60, 10, 5, 40, 0, 40, 182, 80, 40, 90, 0, 45],
    [5, 0, 45, 0, 0, 0, 182, 0, 182, 45, 182, 182, 182, 182, 182, 182],
    [182, 15, 182, 30, 60, 10, 5, 40, 0, 40, 182, 80, 40, 90, 0, 45],
    [5, 0, 45, 0, 0, 0, 182, 0, 182, 45, 182, 182, 182, 182, 182, 182],
    [182, 182, 182, 182, 182, 182, 182, 182, 182, 182, 182, 182, 182, 182, 182, 182],
    [182, 182, 182, 182, 182, 182, 182, 182, 182, 182, 182, 182, 182, 182, 182, 182],
    [182, 182, 182, 182, 182, 182, 182, 182, 182, 182, 182, 182, 182, 182, 182, 182],
    [182, 182, 182, 182, 182, 182, 182, 182, 182, 182, 182, 182, 182, 182, 182, 182],
    [182, 182, 182, 182, 182, 182, 182, 182, 182, 182, 182, 182, 182, 182, 182, 182],
    [182, 182, 182, 182, 182, 182, 182, 182, 182, 182, 182, 182, 182, 182, 182, 182],
    [182, 182, 182, 182, 182, 182, 182, 182, 182, 182, 182, 182, 182, 182, 182, 182],
    [182, 182, 182, 182, 182, 182, 182, 182, 182, 182, 182, 182, 182, 182, 182, 182]]"

definition HttpHeader_wordlist :: "(string \<times> nat) list" where
  "HttpHeader_wordlist =
    [('''', 0), ('''', 0), ('''', 0), (''DNT'', 13), (''Host'', 0), (''Allow'', 32), ('''', 0),
     ('''', 0), (''Location'', 59), ('''', 0), ('''', 0), (''Accept'', 3), (''TE'', 66),
     (''Age'', 44), (''Date'', 26), ('''', 0), ('''', 0), ('''', 0), (''Via'', 72), ('''', 0),
     (''Connection'', 2), ('''', 0), ('''', 0), (''If-Match'', 53), ('''', 0), (''Range'', 22),
     (''X-XSS-Protection'', 78), ('''', 0), (''Access-Control-Allow-Headers'', 36),
     (''Access-Control-RequestHeaders'', 41), (''Access-Control-Request-Methods'', 43),
     (''Access-Control-MaxAge'', 39), (''Upgrade'', 69), (''If-Range'', 55),
     (''Content-Length'', 23), (''X-Frame-Options'', 74), (''Expect'', 52), (''Alt-Svc'', 76),
     ('''', 0), (''Content-Description'', 47), ('''', 0), (''WWW-Authenticate'', 71), ('''', 0),
     ('''', 0), (''ETag'', 31), (''User-Agent'', 6), (''Origin'', 9), (''Content-Base'', 46),
     (''Content-Range'', 33), (''Vary'', 25), (''Upgrade-Insecure-Requests'', 10),
     (''Content-Language'', 49), (''Expires'', 28), (''CDN-Loop'', 92), (''Sec-CH-UA'', 81),
     ('''', 0), (''Cookie'', 12), (''X-Content-Type-Options'', 75), (''Accept-Ranges'', 79),
     (''Save-Data'', 21), (''Set-Cookie'', 80), (''Server'', 27),
     (''Access-Control-Allow-Credentials'', 35), ('''', 0), (''Sec-Fetch-Site'', 83),
     (''Keep-Alive'', 57), (''CF-RAY'', 87), (''Transfer-Encoding'', 68), ('''', 0),
     (''Content-Disposition'', 48), (''Accept-Language'', 4), (''Proxy-Connection'', 63),
     (''Access-Control-Allow-Origin'', 38), (''If-None-Match'', 54), (''If-Unmodified-Since'', 56),
     ('''', 0), (''Public'', 64), (''Sec-GPC'', 14), ('''', 0), (''Accept-Charset'', 34), ('''', 0),
     (''Access-Control-Method'', 40), (''Content-Type'', 24), (''Proxy-Authenticate'', 61),
     (''Link'', 58), ('''', 0), (''X-Requested-With'', 17), (''Warning'', 70), ('''', 0),
     (''Access-Control-Request-Method'', 42), ('''', 0), (''Content-MD5'', 51), (''Trailer'', 67),
     ('''', 0), (''From'', 15), ('''', 0), (''Content-Encoding'', 29), (''Referer'', 7),
     (''Authorization'', 45), (''Sec-Fetch-User'', 85), ('''', 0), (''Content-Location'', 50),
     ('''', 0), ('''', 0), ('''', 0), ('''', 0), (''CF-Connecting-IP'', 89), (''CF-IPCountry'', 90),
     (''Cache-Control'', 1), (''Proxy-Authorization'', 62), ('''', 0), (''Pragma'', 11), ('''', 0),
     ('''', 0), (''Sec-Fetch-Dest'', 86), ('''', 0), ('''', 0), ('''', 0),
     (''Access-Control-Allow-Methods'', 37), ('''', 0), ('''', 0), ('''', 0), (''Max-Forwards'', 60),
     ('''', 0), ('''', 0), ('''', 0), ('''', 0), ('''', 0), ('''', 0), ('''', 0), ('''', 0),
     (''X-Forwarded-Host'', 18), ('''', 0), ('''', 0), ('''', 0), (''Accept-Encoding'', 5),
     ('''', 0), ('''', 0), ('''', 0), ('''', 0), (''CF-Visitor'', 88), ('''', 0),
     (''If-Modified-Since'', 16), ('''', 0), ('''', 0), ('''', 0), ('''', 0), (''X-CSRF-Token'', 20),
     ('''', 0), ('''', 0), ('''', 0), ('''', 0), ('''', 0), (''Last-Modified'', 30),
     (''Sec-Fetch-Mode'', 84), (''Referrer-Policy'', 77), (''Retry-After'', 65), ('''', 0),
     ('''', 0), ('''', 0), (''Strict-Transport-Security'', 73), ('''', 0), ('''', 0), ('''', 0),
     ('''', 0), ('''', 0), ('''', 0), ('''', 0), ('''', 0), ('''', 0), ('''', 0), ('''', 0),
     ('''', 0), ('''', 0), ('''', 0), (''X-Forwarded-For'', 8), ('''', 0),
     (''X-Forwarded-Proto'', 19), (''Sec-CH-UA-Platform'', 91), ('''', 0), ('''', 0),
     (''Sec-CH-UA-Mobile'', 82)]"

text \<open>The fall-through \<open>switch\<close> on the length selects the positions that are added.\<close>

definition HttpHeader_hash :: "bytes \<Rightarrow> nat" where
  "HttpHeader_hash s =
     (let n = length s; asso = HttpHeader_asso_values in
      n + (if n \<ge> 22 then asso (s ! 21) else 0)
        + (if n \<ge> 11 then asso (s ! 10) else 0)
        + (if n \<ge> 10 then asso (s ! 9) else 0)
        + (if n \<ge> 5 then asso (s ! 4) else 0)
        + asso (s ! (n - 1)))"

definition LookupHttpHeader :: "bytes \<Rightarrow> (string \<times> nat) option" where
  "LookupHttpHeader s0 =
     (if length s0 \<le> 32 \<and> length s0 \<ge> 2 then
        (let key = HttpHeader_hash s0 in
         if key \<le> 181 then
           (let slot = HttpHeader_wordlist ! key in
            if gperf_match s0 (str (fst slot)) then Some slot else None)
         else None)
      else None)"

text \<open>\<open>None\<close> stands for the return value \<open>-1\<close>.\<close>

definition GetHttpHeader :: "bytes \<Rightarrow> nat option" where
  "GetHttpHeader s0 = map_option snd (LookupHttpHeader s0)"

subsection \<open>Status codes\<close>

definition kHttpReason :: "(int \<times> string) list" where
  "kHttpReason =
    [(100, ''Continue''), (101, ''Switching Protocols''), (102, ''Processing''), (200, ''OK''),
     (201, ''Created''), (202, ''Accepted''), (203, ''Non-authoritative Information''),
     (204, ''No Content''), (205, ''Reset Content''), (206, ''Partial Content''),
     (207, ''Multi-Status''), (208, ''Already Reported''), (226, ''IM Used''),
     (300, ''Multiple Choices''), (301, ''Moved Permanently''), (302, ''Found''),
     (303, ''See Other''), (304, ''Not Modified''), (305, ''Use Proxy''),
     (307, ''Temporary Redirect''), (308, ''Permanent Redirect''), (400, ''Bad Request''),
     (401, ''Unauthorized''), (402, ''Payment Required''), (403, ''Forbidden''),
     (404, ''Not Found''), (405, ''Method Not Allowed''), (406, ''Not Acceptable''),
     (407, ''Proxy Authentication Required''), (408, ''Request Timeout''), (409, ''Conflict''),
     (410, ''Gone''), (411, ''Length Required''), (412, ''Precondition Failed''),
     (413, ''Payload Too Large''), (414, ''Request-URI Too Long''),
     (415, ''Unsupported Media Type''), (416, ''Requested Range Not Satisfiable''),
     (417, ''Expectation Failed''), (418, ''I'' @ [CHR 0x27] @ ''m a teapot''),
     (421, ''Misdirected Request''), (422, ''Unprocessable Entity''), (423, ''Locked''),
     (424, ''Failed Dependency''), (426, ''Upgrade Required''), (428, ''Precondition Required''),
     (429, ''Too Many Requests''), (431, ''Request Header Fields Too Large''),
     (444, ''Connection Closed Without Response''), (451, ''Unavailable For Legal Reasons''),
     (499, ''Client Closed Request''), (500, ''Internal Server Error''), (501, ''Not Implemented''),
     (502, ''Bad Gateway''), (503, ''Service Unavailable''), (504, ''Gateway Timeout''),
     (505, ''HTTP Version Not Supported''), (506, ''Variant Also Negotiates''),
     (507, ''Insufficient Storage''), (508, ''Loop Detected''), (510, ''Not Extended''),
     (511, ''Network Authentication Required''), (599, ''Network Connect Timeout Error'')]"

text \<open>The binary search of \<open>GetHttpReason\<close>, with \<open>l\<close> and \<open>r\<close> as in the source.\<close>

function GetHttpReason_search :: "int \<Rightarrow> int \<Rightarrow> int \<Rightarrow> string" where
  "GetHttpReason_search code l r =
     (if l \<le> r then
        (let m = (l AND r) + drop_bit 1 (l XOR r) in
         if fst (kHttpReason ! nat m) < code then GetHttpReason_search code (m + 1) r
         else if fst (kHttpReason ! nat m) > code then GetHttpReason_search code l (m - 1)
         else snd (kHttpReason ! nat m))
      else '''')"
  by pat_completeness auto
termination
  by (relation "measure (\<lambda>(code, l, r). nat (r - l + 1))") (unfold average_floor, auto)

declare GetHttpReason_search.simps [simp del]

definition GetHttpReason :: "int \<Rightarrow> string" where
  "GetHttpReason code = GetHttpReason_search code 0 (int (length kHttpReason) - 1)"

subsection \<open>Case-insensitive comparison\<close>

lemma kToLower_eq: "kToLower c = (if isupper c then c + 32 else c)"
proof -
  have "kToLower c =
      (\<lambda>n. of_nat (if 0x41 \<le> n \<and> n \<le> 0x5A then n + 32 else n)) (unat c)"
    unfolding kToLower_def by (rule tab256_tabulate) (simp add: upt_16)
  then show ?thesis by (simp add: byte_unat ctype_defs)
qed

lemma kToLower_NUL: "kToLower c = 0 \<longleftrightarrow> c = 0"
  by (auto simp: kToLower_eq isupper_def word_le_nat_alt word_unat_eq_iff unat_word_ariths
           split: if_splits)

lemma gperf_case_strncmp_0:
  assumes "0 \<notin> set s1" "0 \<notin> set s2"
  shows "gperf_case_strncmp s1 s2 (length s1) = 0 \<and> cstr_at s2 (length s1) = 0 \<longleftrightarrow>
         map kToLower s1 = map kToLower s2"
  using assms
proof (induction s1 arbitrary: s2)
  case Nil
  then show ?case by (cases s2) (auto simp: cstr_at_def)
next
  case (Cons c s1)
  show ?case
  proof (cases s2)
    case Nil
    then show ?thesis using Cons.prems by (auto simp: cstr_at_def kToLower_NUL kToLower_eq [of 0] isupper_def Let_def uint_0_iff)
  next
    case (Cons d s2')
    then show ?thesis using Cons.IH [of s2'] Cons.prems
      by (auto simp: cstr_at_def kToLower_NUL Let_def word_uint_eq_iff [symmetric])
  qed
qed

lemma upper_bit5: "isupper a \<Longrightarrow> \<not> bit a 5"
proof -
  assume "isupper a"
  then have "65 \<le> unat a \<and> unat a \<le> 90" by (simp add: isupper_def word_le_nat_alt)
  then have "unat a div 32 = 2" by (intro div_nat_eqI) auto
  then have "\<not> bit (unat a) 5" by (simp add: bit_iff_odd)
  then show ?thesis by (simp add: bit_unsigned_iff)
qed

lemma upper_xor: "isupper a \<Longrightarrow> (a XOR (a + 32)) AND NOT 32 = 0"
proof -
  assume "isupper a"
  then have "a AND 2 ^ 5 = 0" using upper_bit5 and_exp_eq_0_iff_not_bit [of a 5] by blast
  then have "a + 32 = a OR 32" using disjunctive_add_eq_or [of a 32] by simp
  then show ?thesis by (simp add: bit_eq_iff bit_simps) auto
qed

lemma xor_case: "kToLower a = kToLower b \<Longrightarrow> (a XOR b) AND NOT 32 = 0"
  using upper_xor [of a] upper_xor [of b]
  by (auto simp: kToLower_eq xor.commute split: if_splits)

lemma gperf_match_iff:
  assumes "0 \<notin> set s" "0 \<notin> set t" "s \<noteq> []"
  shows "gperf_match s t \<longleftrightarrow> map kToLower s = map kToLower t"
proof -
  have "(cstr_at s 0 XOR cstr_at t 0) AND NOT 32 = 0" if eq: "map kToLower s = map kToLower t"
  proof -
    have "length s = length t" using eq by (metis length_map)
    moreover have "map kToLower s ! 0 = map kToLower t ! 0" using eq by simp
    ultimately show ?thesis using assms(3) by (intro xor_case) (cases s; cases t; simp add: cstr_at_def)
  qed
  then show ?thesis
    using gperf_case_strncmp_0 [OF assms(1,2)] by (auto simp: gperf_match_def)
qed

subsection \<open>The generated lookups\<close>

text \<open>The hash does not see the case of a letter: the tables as functions of the folded byte.\<close>

definition method_asso :: "nat \<Rightarrow> nat" where
  "method_asso n =
     (if n \<in> {65, 69, 72, 78, 80, 85} then 0 else if n \<in> {67, 71, 79, 84} then 5
      else if n \<in> {75, 77, 82} then 10 else if n \<in> {68, 76} then 15 else 26)"

definition header_asso :: "nat \<Rightarrow> nat" where
  "header_asso n =
     (if n \<in> {72, 78, 81, 83, 84, 85, 87} then 0 else if n \<in> {53, 70, 80} then 5
      else if n = 69 then 10 else if n = 65 then 15 else if n = 67 then 30
      else if n = 45 then 35 else if n \<in> {71, 73, 76} then 40 else if n \<in> {79, 82, 89} then 45
      else if n = 68 then 60 else if n = 75 then 80 else if n = 77 then 90 else 182)"

definition fold_upper :: "nat \<Rightarrow> nat" where
  "fold_upper n = (if 97 \<le> n \<and> n \<le> 122 then n - 32 else n)"

lemma HttpMethod_asso_values_eq: "HttpMethod_asso_values c = method_asso (fold_upper (unat c))"
proof -
  have "HttpMethod_asso_values c = (\<lambda>n. method_asso (fold_upper n)) (unat c)"
    unfolding HttpMethod_asso_values_def
    by (rule tab256_tabulate) (simp add: upt_16 method_asso_def fold_upper_def)
  then show ?thesis .
qed

lemma HttpHeader_asso_values_eq: "HttpHeader_asso_values c = header_asso (fold_upper (unat c))"
proof -
  have "HttpHeader_asso_values c = (\<lambda>n. header_asso (fold_upper n)) (unat c)"
    unfolding HttpHeader_asso_values_def
    by (rule tab256_tabulate) (simp add: upt_16 header_asso_def fold_upper_def)
  then show ?thesis .
qed

lemma fold_upper_lower: "fold_upper (unat (kToLower c)) = fold_upper (unat c)"
  by (simp add: fold_upper_def kToLower_eq isupper_def word_le_nat_alt unat_word_ariths)

lemma HttpMethod_hash_lower:
  "2 \<le> length s \<Longrightarrow> HttpMethod_hash (map kToLower s) = HttpMethod_hash s"
  by (cases s; cases "tl s") (simp_all add: HttpMethod_hash_def HttpMethod_asso_values_eq fold_upper_lower)

lemma HttpHeader_hash_lower:
  "1 \<le> length s \<Longrightarrow> HttpHeader_hash (map kToLower s) = HttpHeader_hash s"
  by (simp add: HttpHeader_hash_def HttpHeader_asso_values_eq fold_upper_lower Let_def)

lemma HttpMethod_hash_cong:
  assumes "map kToLower s = map kToLower t" "2 \<le> length s"
  shows "HttpMethod_hash s = HttpMethod_hash t"
proof -
  have "length s = length t" using assms(1) by (metis length_map)
  then show ?thesis using assms HttpMethod_hash_lower [of s] HttpMethod_hash_lower [of t] by simp
qed

lemma HttpHeader_hash_cong:
  assumes "map kToLower s = map kToLower t" "1 \<le> length s"
  shows "HttpHeader_hash s = HttpHeader_hash t"
proof -
  have "length s = length t" using assms(1) by (metis length_map)
  then show ?thesis using assms HttpHeader_hash_lower [of s] HttpHeader_hash_lower [of t] by simp
qed

text \<open>Every slot that is in use holds a name that hashes to the slot, and every code has its slot.\<close>

fun slots_ok :: "(nat \<Rightarrow> string \<times> nat \<Rightarrow> bool) \<Rightarrow> nat \<Rightarrow> (string \<times> nat) list \<Rightarrow> bool" where
  "slots_ok P i [] = True"
| "slots_ok P i (e # es) = ((fst e = '''' \<or> P i e) \<and> slots_ok P (Suc i) es)"

lemma slots_ok_intros:
  "slots_ok P i []"
  "fst e = [] \<or> P i e \<Longrightarrow> slots_ok P (Suc i) es \<Longrightarrow> slots_ok P i (e # es)"
  by simp_all

lemma slots_ok_nth:
  "slots_ok P i es \<Longrightarrow> k < length es \<Longrightarrow> fst (es ! k) = '''' \<or> P (i + k) (es ! k)"
proof (induction es arbitrary: i k)
  case (Cons e es)
  then show ?case by (cases k) (use Cons.IH [of "Suc i"] in fastforce)+
qed simp

text \<open>
  The contract of a generated lookup: the hash puts every name of the table in its own slot and
  does not depend on case.
\<close>

locale perfect_hash =
  fixes hash :: "bytes \<Rightarrow> nat" and words :: "(string \<times> nat) list"
    and lo hi maxkey :: nat and lookup :: "bytes \<Rightarrow> (string \<times> nat) option"
  assumes slots: "slots_ok (\<lambda>i e. let b = str (fst e) in
                     lo \<le> length b \<and> length b \<le> hi \<and> 0 \<notin> set b \<and> hash b = i) 0 words"
    and length_words: "length words = Suc maxkey"
    and lo_pos: "0 < lo"
    and hash_cong: "lo \<le> length s \<Longrightarrow> map kToLower s = map kToLower t \<Longrightarrow> hash s = hash t"
    and lookup_eq: "lookup s =
      (if length s \<le> hi \<and> length s \<ge> lo then
         (let key = hash s in
          if key \<le> maxkey then
            (let slot = words ! key in
             if gperf_match s (str (fst slot)) then Some slot else None)
          else None)
       else None)"
begin

lemma slot_nth:
  assumes "i < length words" "fst (words ! i) \<noteq> ''''"
  shows "lo \<le> length (str (fst (words ! i)))" "length (str (fst (words ! i))) \<le> hi"
    "0 \<notin> set (str (fst (words ! i)))" "hash (str (fst (words ! i))) = i"
  using slots_ok_nth [OF slots assms(1)] assms(2) by (auto simp: Let_def)

lemma no_nul: "i < length words \<Longrightarrow> 0 \<notin> set (str (fst (words ! i)))"
  using slot_nth(3) [of i] by (cases "fst (words ! i) = ''''") (auto simp: str_def)

lemma lookup_found:
  assumes "0 \<notin> set s" "lookup s = Some e"
  shows "e \<in> set words \<and> fst e \<noteq> '''' \<and> map kToLower s = map kToLower (str (fst e))"
proof -
  from assms(2) have l: "lo \<le> length s" and k: "hash s < length words" and e: "e = words ! hash s"
    and m: "gperf_match s (str (fst e))"
    by (auto simp: lookup_eq Let_def length_words split: if_splits)
  from l lo_pos have "s \<noteq> []" by auto
  with assms(1) m no_nul [OF k] have c: "map kToLower s = map kToLower (str (fst e))"
    by (simp add: e gperf_match_iff)
  with \<open>s \<noteq> []\<close> have "fst e \<noteq> ''''" by (auto simp: str_def)
  with c k show ?thesis by (simp add: e)
qed

lemma lookup_finds:
  assumes "0 \<notin> set s" "e \<in> set words" "fst e \<noteq> ''''" "map kToLower s = map kToLower (str (fst e))"
  shows "lookup s = Some e"
proof -
  from assms(2) obtain i where i: "i < length words" "words ! i = e" by (auto simp: in_set_conv_nth)
  with assms(3) have sl: "lo \<le> length (str (fst e))" "length (str (fst e)) \<le> hi"
      "0 \<notin> set (str (fst e))" "hash (str (fst e)) = i"
    using slot_nth [of i] by auto
  from assms(4) have len: "length s = length (str (fst e))" by (rule map_eq_imp_length_eq)
  with sl(1) hash_cong [OF _ assms(4)] sl(4) have h: "hash s = i" by simp
  from len sl(1) lo_pos have "s \<noteq> []" by auto
  with assms(1,4) sl(3) have "gperf_match s (str (fst e))" by (simp add: gperf_match_iff)
  with len sl(1,2) h i show ?thesis by (simp add: lookup_eq Let_def length_words)
qed

lemma lookup_iff:
  "0 \<notin> set s \<Longrightarrow>
     lookup s = Some e \<longleftrightarrow> e \<in> set words \<and> fst e \<noteq> '''' \<and> map kToLower s = map kToLower (str (fst e))"
  using lookup_found lookup_finds by blast

end

lemma method_slots:
  "slots_ok (\<lambda>i e. let b = str (fst e) in
     3 \<le> length b \<and> length b \<le> 7 \<and> 0 \<notin> set b \<and> HttpMethod_hash b = i) 0 HttpMethod_wordlist"
  unfolding HttpMethod_wordlist_def
  by (intro slots_ok_intros)
     (simp_all add: str_def HttpMethod_hash_def HttpMethod_asso_values_eq method_asso_def
                    fold_upper_def Let_def)

lemma header_slots:
  "slots_ok (\<lambda>i e. let b = str (fst e) in
     2 \<le> length b \<and> length b \<le> 32 \<and> 0 \<notin> set b \<and> HttpHeader_hash b = i) 0 HttpHeader_wordlist"
  unfolding HttpHeader_wordlist_def
  by (intro slots_ok_intros)
     (simp_all add: str_def HttpHeader_hash_def HttpHeader_asso_values_eq header_asso_def
                    fold_upper_def Let_def)

lemma length_wordlists: "length HttpMethod_wordlist = Suc 25" "length HttpHeader_wordlist = Suc 181"
  by (simp_all add: HttpMethod_wordlist_def HttpHeader_wordlist_def)

interpretation method_hash: perfect_hash HttpMethod_hash HttpMethod_wordlist 3 7 25 LookupHttpMethod
  by unfold_locales
     (simp_all add: method_slots length_wordlists LookupHttpMethod_def,
      auto intro: HttpMethod_hash_cong)

interpretation header_hash: perfect_hash HttpHeader_hash HttpHeader_wordlist 2 32 181 LookupHttpHeader
  by unfold_locales
     (simp_all add: header_slots length_wordlists LookupHttpHeader_def,
      auto intro: HttpHeader_hash_cong)

lemma method_codes:
  "list_all (\<lambda>k. (kHttpMethod ! k, k) \<in> set HttpMethod_wordlist \<and> kHttpMethod ! k \<noteq> '''') [1..<18]"
  by (simp add: upt_rec HttpMethod_wordlist_def kHttpMethod_def)

lemma method_words:
  "list_all (\<lambda>(s, k). s = '''' \<or> 1 \<le> k \<and> k < 18 \<and> kHttpMethod ! k = s) HttpMethod_wordlist"
  by (simp add: HttpMethod_wordlist_def kHttpMethod_def)

lemma header_codes: "list_all (\<lambda>(k, s). s \<noteq> '''' \<and> (s, k) \<in> set HttpHeader_wordlist) HttpHeader_names"
  by (simp add: HttpHeader_wordlist_def HttpHeader_names_def)

lemma distinct_HttpHeader_names: "distinct (map fst HttpHeader_names)"
  by (simp add: HttpHeader_names_def)

lemma length_used_slots:
  "length (filter (\<lambda>e. fst e \<noteq> '''') HttpHeader_wordlist) = length HttpHeader_names"
  by (simp add: HttpHeader_wordlist_def HttpHeader_names_def)

lemma header_names_slots:
  "set HttpHeader_names = {(k, s). (s, k) \<in> set HttpHeader_wordlist \<and> s \<noteq> ''''}"
proof -
  let ?u = "map (\<lambda>(s, k). (k, s)) (filter (\<lambda>e. fst e \<noteq> '''') HttpHeader_wordlist)"
  have sub: "set HttpHeader_names \<subseteq> set ?u"
    using header_codes by (force simp: list_all_iff)
  have "card (set ?u) \<le> length HttpHeader_names"
    using card_length [of ?u] by (simp add: length_used_slots)
  moreover have "card (set HttpHeader_names) = length HttpHeader_names"
    using distinct_HttpHeader_names by (simp add: distinct_card distinct_map)
  ultimately have "set HttpHeader_names = set ?u"
    using card_seteq [OF _ sub] by simp
  then show ?thesis by force
qed

lemma method_words_iff:
  "(x, j) \<in> set HttpMethod_wordlist \<and> x \<noteq> '''' \<longleftrightarrow>
     0 < j \<and> j < length kHttpMethod \<and> x = kHttpMethod ! j"
  using method_codes method_words by (auto simp: list_all_iff kHttpMethod_def)

text \<open>(C12) \<open>GetHttpMethod\<close> finds a NUL-free string exactly when it is, without regard to case, the
  name that \<open>kHttpMethod\<close> gives to the code; every other string gets the code 0.\<close>

theorem GetHttpMethod_iff:
  assumes "0 \<notin> set s" and "0 < k"
  shows "GetHttpMethod (Buf s) = k \<longleftrightarrow>
           k < length kHttpMethod \<and> map kToLower s = map kToLower (str (kHttpMethod ! k))"
proof -
  have "GetHttpMethod (Buf s) = k \<longleftrightarrow> (\<exists>x. LookupHttpMethod s = Some (x, k))"
    using assms(2) by (auto simp: GetHttpMethod_def split: option.splits)
  also have "\<dots> \<longleftrightarrow> (\<exists>x. ((x, k) \<in> set HttpMethod_wordlist \<and> x \<noteq> []) \<and>
                            map kToLower s = map kToLower (str x))"
    by (simp add: method_hash.lookup_iff [OF assms(1)])
  also have "\<dots> \<longleftrightarrow> k < length kHttpMethod \<and> map kToLower s = map kToLower (str (kHttpMethod ! k))"
    unfolding method_words_iff using assms(2) by auto
  finally show ?thesis .
qed

theorem GetHttpMethod_iff_witness:
  "GetHttpMethod (Buf (str ''pAtCh'')) = 15"
  by (subst GetHttpMethod_iff) (simp_all add: str_def kHttpMethod_def kToLower_eq isupper_def)

text \<open>(C11) \<open>GetHttpHeader\<close> finds a NUL-free string exactly when it is, without regard to case, the name
  that \<open>GetHttpHeaderName\<close> gives to the code, so that the two tables are inverse to each other.\<close>

theorem GetHttpHeader_iff:
  assumes "0 \<notin> set s"
  shows "GetHttpHeader s = Some k \<longleftrightarrow>
           (\<exists>x. GetHttpHeaderName k = Some x \<and> map kToLower s = map kToLower (str x))"
proof -
  have "GetHttpHeaderName k = Some x \<longleftrightarrow> (x, k) \<in> set HttpHeader_wordlist \<and> x \<noteq> ''''" for x
    using header_names_slots distinct_HttpHeader_names by (simp add: GetHttpHeaderName_def)
  then show ?thesis
    by (auto simp: GetHttpHeader_def header_hash.lookup_iff [OF assms])
qed

theorem GetHttpHeader_iff_witness:
  "GetHttpHeader (str ''x-forwarded-FOR'') = Some 8"
  by (subst GetHttpHeader_iff)
     (simp_all add: str_def GetHttpHeaderName_def HttpHeader_names_def kToLower_eq isupper_def)

subsection \<open>The binary search\<close>

lemma kHttpReason_sorted: "sorted_wrt (<) (map fst kHttpReason)"
proof -
  have "successively (<) (map fst kHttpReason)" by (simp add: kHttpReason_def)
  then show ?thesis by (simp add: successively_conv_sorted_wrt)
qed

interpretation reason_search: table_search kHttpReason GetHttpReason_search "\<lambda>s. s" "[]"
proof unfold_locales
  show "sorted (map fst kHttpReason)" using kHttpReason_sorted by (rule strict_sorted_imp_sorted)
  show "v = w" if "(k, v) \<in> set kHttpReason" "(k, w) \<in> set kHttpReason" for k v w
    using kHttpReason_sorted that by (auto simp: strict_sorted_iff dest: eq_key_imp_eq_value)
qed (simp add: GetHttpReason_search.simps [unfolded average_floor])

text \<open>(C13) The binary search of \<open>GetHttpReason\<close> finds exactly what a linear search of the table finds,
  and the empty string for a code that is not in the table.\<close>

theorem GetHttpReason_map_of:
  "GetHttpReason code = (case map_of kHttpReason code of Some s \<Rightarrow> s | None \<Rightarrow> '''')"
  unfolding GetHttpReason_def by (simp add: reason_search.search_map_of split: option.splits)

end
