(* ===== verification/Libc_Str.thy ===== *)
theory Libc_Str
  imports Cosmo_Prelude "HOL-Library.Sublist"
begin

text \<open>
  Byte string routines of \<open>libc/str\<close>.  A pointer into a buffer is the list of the bytes from there to
  the end of the buffer, a returned pointer is an offset, and \<open>NULL\<close> is \<open>None\<close>.
\<close>

subsection \<open>memmem\<close>

text \<open>The inner loop of the portable branch, from \<open>haystack + i + j\<close> and \<open>needle + j\<close> on.\<close>

fun memmem_cmp :: "bytes \<Rightarrow> bytes \<Rightarrow> bool" where
  "memmem_cmp hs [] = True"
| "memmem_cmp [] (q # qs) = False"
| "memmem_cmp (h # hs) (q # qs) = (if h \<noteq> q then False else memmem_cmp hs qs)"

fun memmem_scan :: "nat \<Rightarrow> bytes \<Rightarrow> bytes \<Rightarrow> nat option" where
  "memmem_scan i [] needle = None"
| "memmem_scan i (h # hs) needle =
     (if memmem_cmp (h # hs) needle then Some i else memmem_scan (Suc i) hs needle)"

definition memmem :: "bytes \<Rightarrow> bytes \<Rightarrow> nat option" where
  "memmem haystack needle =
     (if length needle = 0 then Some 0
      else if length needle > length haystack then None
      else memmem_scan 0 haystack needle)"

lemma memmem_cmp_prefix: "memmem_cmp hs qs \<longleftrightarrow> prefix qs hs"
  by (induction hs qs rule: memmem_cmp.induct) auto

lemma memmem_scan_Some:
  "memmem_scan i hs q = Some k \<Longrightarrow>
     i \<le> k \<and> prefix q (drop (k - i) hs) \<and> (\<forall>j < k - i. \<not> prefix q (drop j hs))"
proof (induction i hs q arbitrary: k rule: memmem_scan.induct)
  case (2 i h hs needle)
  show ?case
  proof (cases "memmem_cmp (h # hs) needle")
    case True
    with 2 show ?thesis by (simp add: memmem_cmp_prefix)
  next
    case False
    with 2 have IH: "Suc i \<le> k" "prefix needle (drop (k - Suc i) hs)"
      "\<forall>j < k - Suc i. \<not> prefix needle (drop j hs)" by auto
    then have "k - i = Suc (k - Suc i)" by simp
    with IH False show ?thesis
      by (auto simp: memmem_cmp_prefix less_Suc_eq_0_disj)
  qed
qed simp

lemma memmem_scan_None: "memmem_scan i hs q = None \<Longrightarrow> q \<noteq> [] \<Longrightarrow> \<not> sublist q hs"
  by (induction i hs q rule: memmem_scan.induct)
     (auto simp: memmem_cmp_prefix sublist_Cons_right split: if_splits)

lemma memmem_sublist: "memmem hs q \<noteq> None \<longleftrightarrow> sublist q hs"
proof -
  have "sublist q hs" if "memmem_scan 0 hs q = Some k" for k
    using memmem_scan_Some [OF that] by (auto dest!: prefix_imp_sublist intro: sublist_order.order_trans)
  then show ?thesis
    using memmem_scan_None [of 0 hs q] sublist_length_le [of q hs]
    by (auto simp: memmem_def)
qed

text \<open>(C22) \<open>memmem\<close> returns the first place where the needle occurs, and \<open>NULL\<close> only when it does not
  occur at all.\<close>

theorem memmem_first:
  "case memmem hs q of
     None \<Rightarrow> \<not> sublist q hs
   | Some k \<Rightarrow> take (length q) (drop k hs) = q \<and> (\<forall>j < k. take (length q) (drop j hs) \<noteq> q)"
proof (cases "memmem hs q")
  case None
  then show ?thesis using memmem_sublist [of hs q] by simp
next
  case (Some k)
  then show ?thesis
    using memmem_scan_Some [of 0 hs q k]
    by (auto simp: memmem_def prefix_def split: if_splits)
       (metis append_take_drop_id prefixI)
qed

theorem memmem_first_witness:
  "memmem (str ''abracadabra'') (str ''ada'') = Some 5 \<and>
   take (length (str ''ada'')) (drop 5 (str ''abracadabra'')) = str ''ada''"
  using memmem_first [where hs = "str ''abracadabra''" and q = "str ''ada''"]
  by (simp add: memmem_def str_def)

end
