(* ===== verification/Http_Message.thy ===== *)
theory Http_Message
  imports Http_Names Libc_Str
begin

text \<open>
  The HTTP request and response parser of \<open>net/http/parsehttpmessage.c\<close>, and the two routines that
  read its result, \<open>HeaderHas\<close> and \<open>FoldHeader\<close>.  \<open>HttpMessage\<close> is the struct of the same name
  (the slices are \<open>short\<close> in the source, which is wide enough because no index passes \<open>LIMIT\<close>).
  One label of the \<open>switch\<close> is one definition on the byte \<open>c\<close>; it tells whether the source breaks out
  of the \<open>switch\<close>, goes round the label's own \<open>for (;;)\<close> once more, or returns.
  \<open>http_step\<close> is the reference: the same labels, applied to one byte at a time.
\<close>

subsection \<open>State\<close>

datatype HttpType = kHttpRequest | kHttpResponse

datatype HttpState =
    kHttpStateStart | kHttpStateMethod | kHttpStateUri | kHttpStateVersion | kHttpStateStatus
  | kHttpStateMessage | kHttpStateName | kHttpStateColon | kHttpStateValue | kHttpStateCr
  | kHttpStateLf1 | kHttpStateLf2

record HttpSlice =
  sl_a :: nat
  sl_b :: nat

record HttpHeader =
  h_k :: HttpSlice
  h_v :: HttpSlice

text \<open>The field \<open>n\<close> of the source is the length of the list \<open>xh_p\<close>, \<open>c\<close> the capacity of the array.\<close>

record HttpHeaders =
  xh_c :: nat
  xh_p :: "HttpHeader list"

record HttpMessage =
  r_i :: nat
  r_a :: nat
  r_status :: nat
  r_t :: HttpState
  r_type :: HttpType
  r_method :: nat
  r_version :: nat
  r_k :: HttpSlice
  r_uri :: HttpSlice
  r_message :: HttpSlice
  r_headers :: "HttpSlice list"
  r_xmethod :: HttpSlice
  r_xheaders :: HttpHeaders

definition kHttpHeadersMax :: nat where
  "kHttpHeadersMax = 93"

definition LIMIT :: nat where
  "LIMIT = 32767 - 2"

text \<open>\<open>sizeof(struct HttpHeader)\<close>: four \<open>short\<close>s.\<close>

definition sizeof_HttpHeader :: nat where
  "sizeof_HttpHeader = 8"

abbreviation (input) mk_slice :: "nat \<Rightarrow> nat \<Rightarrow> HttpSlice" where
  "mk_slice a b \<equiv> \<lparr>sl_a = a, sl_b = b\<rparr>"

definition InitHttpMessage :: "HttpType \<Rightarrow> HttpMessage" where
  "InitHttpMessage type =
     \<lparr>r_i = 0, r_a = 0, r_status = 0, r_t = kHttpStateStart, r_type = type, r_method = 0,
      r_version = 0, r_k = mk_slice 0 0, r_uri = mk_slice 0 0, r_message = mk_slice 0 0,
      r_headers = replicate kHttpHeadersMax (mk_slice 0 0), r_xmethod = mk_slice 0 0,
      r_xheaders = \<lparr>xh_c = 0, xh_p = []\<rparr>\<rparr>"

text \<open>The capacity stays: only the pointer and the length are reset.\<close>

definition DestroyHttpMessage :: "HttpMessage \<Rightarrow> HttpMessage" where
  "DestroyHttpMessage r =
     (if xh_c (r_xheaders r) \<noteq> 0 then r\<lparr>r_xheaders := (r_xheaders r)\<lparr>xh_p := []\<rparr>\<rparr> else r)"

text \<open>The bytes of a slice.\<close>

definition slice_of :: "bytes \<Rightarrow> HttpSlice \<Rightarrow> bytes" where
  "slice_of p s = take (sl_b s - sl_a s) (drop (sl_a s) p)"

definition kHttpRepeatable :: "nat \<Rightarrow> bool" where
  "kHttpRepeatable h \<longleftrightarrow>
     h \<in> set [34, 5, 4, 3, 32, 1, 29, 49, 52, 53, 54, 11, 61, 64, 66, 67, 68, 69, 25, 72, 70, 71, 8,
              36, 37, 41, 43]"

subsection \<open>The labels of the switch\<close>

text \<open>
  How a label ends: \<open>Next r\<close> is \<open>break\<close> out of the \<open>switch\<close>, \<open>Stop (r, x)\<close> is \<open>return x\<close>.  A label with
  a loop of its own may also go round once more, \<open>Again r\<close>.
\<close>

type_synonym ctl = "(HttpMessage, HttpMessage \<times> (errno + nat)) outcome"

datatype act = Leave ctl | Again HttpMessage

abbreviation (input) ebadmsg :: "HttpMessage \<Rightarrow> ctl" where
  "ebadmsg r \<equiv> Stop (r, Inl EBADMSG)"

definition iscontrol :: "byte \<Rightarrow> bool" where
  "iscontrol c \<longleftrightarrow> c < 0x20 \<or> (0x7F \<le> c \<and> c < 0xA0)"

definition case_Start :: "HttpMessage \<Rightarrow> byte \<Rightarrow> ctl" where
  "case_Start r c =
     (if c = ch_CR \<or> c = ch_LF then Next r
      else if kHttpToken c = 0 then ebadmsg r
      else Next (r\<lparr>r_t := (if r_type r = kHttpRequest then kHttpStateMethod else kHttpStateVersion),
                    r_a := r_i r\<rparr>))"

definition case_Method :: "bytes \<Rightarrow> HttpMessage \<Rightarrow> byte \<Rightarrow> act" where
  "case_Method p r c =
     (if c = ch_SP then
        Leave (Next (r\<lparr>r_method := GetHttpMethod (Buf (slice_of p (mk_slice (r_a r) (r_i r)))),
                 r_xmethod := mk_slice (r_a r) (r_i r),
                 r_a := r_i r + 1,
                 r_t := kHttpStateUri\<rparr>))
      else if kHttpToken c = 0 then Leave (ebadmsg r)
      else Again r)"

definition case_Uri :: "HttpMessage \<Rightarrow> byte \<Rightarrow> act" where
  "case_Uri r c =
     (if c = ch_SP \<or> c = ch_CR \<or> c = ch_LF then
        if r_i r = r_a r then Leave (ebadmsg r)
        else
          (let r = r\<lparr>r_uri := mk_slice (r_a r) (r_i r)\<rparr> in
           if c = ch_SP then Leave (Next (r\<lparr>r_a := r_i r + 1, r_t := kHttpStateVersion\<rparr>))
           else Leave (Next (r\<lparr>r_version := 9,
                         r_t := (if c = ch_CR then kHttpStateCr else kHttpStateLf1)\<rparr>)))
      else if iscontrol c then Leave (ebadmsg r)
      else Again r)"

text \<open>\<open>READ64BE\<close> of the eight bytes of the version, and the mask that drops the two digits.\<close>

definition READ64BE :: "bytes \<Rightarrow> 64 word" where
  "READ64BE b = foldl (\<lambda>w c. push_bit 8 w OR ucast c) 0 (take 8 b)"

definition case_Version :: "bytes \<Rightarrow> HttpMessage \<Rightarrow> byte \<Rightarrow> ctl" where
  "case_Version p r c =
     (if c = ch_SP \<or> c = ch_CR \<or> c = ch_LF then
        if r_i r - r_a r = 8 \<and>
           READ64BE (drop (r_a r) p) AND 0xFFFFFFFFFF00FF00 = 0x485454502F002E00 \<and>
           isdigit (p ! (r_a r + 5)) \<and> isdigit (p ! (r_a r + 7)) then
          (let r = r\<lparr>r_version :=
                       (unat (p ! (r_a r + 5)) - 48) * 10 + (unat (p ! (r_a r + 7)) - 48)\<rparr> in
           if r_type r = kHttpRequest then
             Next (r\<lparr>r_t := (if c = ch_CR then kHttpStateCr else kHttpStateLf1)\<rparr>)
           else Next (r\<lparr>r_t := kHttpStateStatus\<rparr>))
        else ebadmsg r
      else Next r)"

definition case_Status :: "HttpMessage \<Rightarrow> byte \<Rightarrow> act" where
  "case_Status r c =
     (if c = ch_SP \<or> c = ch_CR \<or> c = ch_LF then
        if r_status r < 100 then Leave (ebadmsg r)
        else if c = ch_SP then Leave (Next (r\<lparr>r_a := r_i r + 1, r_t := kHttpStateMessage\<rparr>))
        else Leave (Next (r\<lparr>r_t := (if c = ch_CR then kHttpStateCr else kHttpStateLf1)\<rparr>))
      else if isdigit c then
        (let r = r\<lparr>r_status := r_status r * 10 + (unat c - 48)\<rparr> in
         if r_status r > 999 then Leave (ebadmsg r) else Again r)
      else Leave (ebadmsg r))"

definition case_Message :: "HttpMessage \<Rightarrow> byte \<Rightarrow> act" where
  "case_Message r c =
     (if c = ch_CR \<or> c = ch_LF then
        Leave (Next (r\<lparr>r_message := mk_slice (r_a r) (r_i r),
                 r_t := (if c = ch_CR then kHttpStateCr else kHttpStateLf1)\<rparr>))
      else if iscontrol c then Leave (ebadmsg r)
      else Again r)"

definition case_Cr :: "HttpMessage \<Rightarrow> byte \<Rightarrow> ctl" where
  "case_Cr r c = (if c \<noteq> ch_LF then ebadmsg r else Next (r\<lparr>r_t := kHttpStateLf1\<rparr>))"

definition case_Lf1 :: "HttpMessage \<Rightarrow> byte \<Rightarrow> ctl" where
  "case_Lf1 r c =
     (if c = ch_CR then Next (r\<lparr>r_t := kHttpStateLf2\<rparr>)
      else if c = ch_LF then Stop ((r\<lparr>r_i := r_i r + 1\<rparr>), (Inr (r_i r + 1)))
      else if kHttpToken c = 0 then ebadmsg r
      else Next (r\<lparr>r_k := (r_k r)\<lparr>sl_a := r_i r\<rparr>, r_t := kHttpStateName\<rparr>))"

definition case_Name :: "HttpMessage \<Rightarrow> byte \<Rightarrow> act" where
  "case_Name r c =
     (if c = 0x3A then
        Leave (Next (r\<lparr>r_k := (r_k r)\<lparr>sl_b := r_i r\<rparr>, r_t := kHttpStateColon\<rparr>))
      else if kHttpToken c = 0 then Leave (ebadmsg r)
      else Again r)"

text \<open>\<open>while (i > r->a && (p[i - 1] == ' ' || p[i - 1] == '\t')) --i;\<close>\<close>

fun trim_end :: "bytes \<Rightarrow> nat \<Rightarrow> nat \<Rightarrow> nat" where
  "trim_end p a 0 = 0"
| "trim_end p a (Suc i) =
     (if Suc i > a \<and> (p ! i = ch_SP \<or> p ! i = ch_HT) then trim_end p a i else Suc i)"

text \<open>Growing the array of other headers; when \<open>realloc\<close> fails the array stays as it is.\<close>

definition grow_xheaders :: "allocator \<Rightarrow> HttpHeaders \<Rightarrow> HttpHeaders" where
  "grow_xheaders al x =
     (if length (xh_p x) = xh_c x then
        (let c2 = (if xh_c x = 0 then 1 else xh_c x * 2) in
         if al (c2 * sizeof_HttpHeader) then x\<lparr>xh_c := c2\<rparr> else x)
      else x)"

definition push_xheader :: "HttpHeader \<Rightarrow> HttpHeaders \<Rightarrow> HttpHeaders" where
  "push_xheader h x = (if length (xh_p x) < xh_c x then x\<lparr>xh_p := xh_p x @ [h]\<rparr> else x)"

definition store_header :: "allocator \<Rightarrow> bytes \<Rightarrow> HttpMessage \<Rightarrow> HttpMessage" where
  "store_header al p r =
     (let i = trim_end p (r_a r) (r_i r);
          other = r\<lparr>r_xheaders := push_xheader \<lparr>h_k = r_k r, h_v = mk_slice (r_a r) i\<rparr>
                                   (grow_xheaders al (r_xheaders r))\<rparr>
      in case GetHttpHeader (slice_of p (r_k r)) of
           Some h \<Rightarrow>
             if sl_a (r_headers r ! h) = 0 \<or> \<not> kHttpRepeatable h
             then r\<lparr>r_headers := (r_headers r)[h := mk_slice (r_a r) i]\<rparr>
             else other
         | None \<Rightarrow> other)"

definition case_Value :: "allocator \<Rightarrow> bytes \<Rightarrow> HttpMessage \<Rightarrow> byte \<Rightarrow> act" where
  "case_Value al p r c =
     (if c = ch_CR \<or> c = ch_LF then
        Leave (Next ((store_header al p r)\<lparr>r_t := (if c = ch_CR then kHttpStateCr else kHttpStateLf1)\<rparr>))
      else if (c < 0x20 \<and> c \<noteq> ch_HT) \<or> (0x7F \<le> c \<and> c < 0xA0) then Leave (ebadmsg r)
      else Again r)"

definition case_Lf2 :: "HttpMessage \<Rightarrow> byte \<Rightarrow> ctl" where
  "case_Lf2 r c =
     (if c = ch_LF then Stop ((r\<lparr>r_i := r_i r + 1\<rparr>), (Inr (r_i r + 1))) else ebadmsg r)"

lemmas http_case_defs [model_defs] =
  case_Start_def case_Method_def case_Uri_def case_Version_def case_Status_def case_Message_def
  case_Cr_def case_Lf1_def case_Name_def case_Value_def case_Lf2_def

subsection \<open>The loops\<close>

text \<open>
  The \<open>for (;;)\<close> of a label, on the bytes that follow \<open>c\<close> up to \<open>n\<close>: after the label has looked
  at \<open>c\<close>, \<open>if (++r->i == n) break;\<close> and otherwise the next byte.
\<close>

fun inner_for :: "(HttpMessage \<Rightarrow> byte \<Rightarrow> act) \<Rightarrow> HttpMessage \<Rightarrow> byte \<Rightarrow> bytes \<Rightarrow> ctl" where
  "inner_for body r c [] =
     (case body r c of Leave x \<Rightarrow> x | Again r' \<Rightarrow> Next (r'\<lparr>r_i := r_i r' + 1\<rparr>))"
| "inner_for body r c (c' # cs) =
     (case body r c of Leave x \<Rightarrow> x | Again r' \<Rightarrow> inner_for body (r'\<lparr>r_i := r_i r' + 1\<rparr>) c' cs)"

definition http_switch :: "allocator \<Rightarrow> bytes \<Rightarrow> nat \<Rightarrow> HttpMessage \<Rightarrow> ctl" where
  "http_switch al p n r =
     (let c = p ! r_i r; cs = drop (r_i r + 1) (take n p) in
      case r_t r of
        kHttpStateStart \<Rightarrow> case_Start r c
      | kHttpStateMethod \<Rightarrow> inner_for (case_Method p) r c cs
      | kHttpStateUri \<Rightarrow> inner_for case_Uri r c cs
      | kHttpStateVersion \<Rightarrow> case_Version p r c
      | kHttpStateStatus \<Rightarrow> inner_for case_Status r c cs
      | kHttpStateMessage \<Rightarrow> inner_for case_Message r c cs
      | kHttpStateCr \<Rightarrow> case_Cr r c
      | kHttpStateLf1 \<Rightarrow> case_Lf1 r c
      | kHttpStateName \<Rightarrow> inner_for case_Name r c cs
      | kHttpStateColon \<Rightarrow>
          if c = ch_SP \<or> c = ch_HT then Next r
          else inner_for (case_Value al p) (r\<lparr>r_a := r_i r, r_t := kHttpStateValue\<rparr>) c cs
      | kHttpStateValue \<Rightarrow> inner_for (case_Value al p) r c cs
      | kHttpStateLf2 \<Rightarrow> case_Lf2 r c)"

lemma case_Again:
  "case_Method p r c = Again r' \<Longrightarrow> r' = r"
  "case_Uri r c = Again r' \<Longrightarrow> r' = r"
  "case_Status r c = Again r' \<Longrightarrow> r_i r' = r_i r \<and> r_t r' = r_t r"
  "case_Message r c = Again r' \<Longrightarrow> r' = r"
  "case_Name r c = Again r' \<Longrightarrow> r' = r"
  "case_Value al p r c = Again r' \<Longrightarrow> r' = r"
  by (auto simp: http_case_defs Let_def split: if_splits)

lemma store_header_keeps [simp]:
  "r_i (store_header al p r) = r_i r" "r_a (store_header al p r) = r_a r"
  "r_t (store_header al p r) = r_t r" "r_type (store_header al p r) = r_type r"
  "r_k (store_header al p r) = r_k r" "r_uri (store_header al p r) = r_uri r"
  "r_message (store_header al p r) = r_message r" "r_xmethod (store_header al p r) = r_xmethod r"
  "r_method (store_header al p r) = r_method r" "r_version (store_header al p r) = r_version r"
  "r_status (store_header al p r) = r_status r"
  by (simp_all add: store_header_def Let_def split: option.split)

lemma case_Next_i:
  "case_Start r c = Next r' \<Longrightarrow> r_i r' = r_i r"
  "case_Method p r c = Leave (Next r') \<Longrightarrow> r_i r' = r_i r"
  "case_Uri r c = Leave (Next r') \<Longrightarrow> r_i r' = r_i r"
  "case_Version p r c = Next r' \<Longrightarrow> r_i r' = r_i r"
  "case_Status r c = Leave (Next r') \<Longrightarrow> r_i r' = r_i r"
  "case_Message r c = Leave (Next r') \<Longrightarrow> r_i r' = r_i r"
  "case_Cr r c = Next r' \<Longrightarrow> r_i r' = r_i r"
  "case_Lf1 r c = Next r' \<Longrightarrow> r_i r' = r_i r"
  "case_Name r c = Leave (Next r') \<Longrightarrow> r_i r' = r_i r"
  "case_Value al p r c = Leave (Next r') \<Longrightarrow> r_i r' = r_i r"
  "case_Lf2 r c = Next r' \<Longrightarrow> r_i r' = r_i r"
  by (auto simp: http_case_defs Let_def split: if_splits)

lemma inner_for_i_le:
  assumes "\<And>r c r'. body r c = Again r' \<Longrightarrow> r_i r' = r_i r"
    and "\<And>r c r'. body r c = Leave (Next r') \<Longrightarrow> r_i r' = r_i r"
    and "inner_for body r c cs = Next r'"
  shows "r_i r \<le> r_i r'"
  using assms(3)
proof (induction cs arbitrary: r c)
  case Nil
  then show ?case by (auto split: act.splits dest: assms(1,2))
next
  case (Cons c' cs)
  then show ?case by (fastforce split: act.splits dest: assms(1,2))
qed

lemma http_switch_i_le: "http_switch al p n r = Next r' \<Longrightarrow> r_i r \<le> r_i r'"
  unfolding http_switch_def Let_def
  by (cases "r_t r")
     (auto split: if_splits dest: case_Next_i case_Again
           dest!: inner_for_i_le [rotated 2])

text \<open>The \<open>for\<close> loop; the caller has already taken the minimum of \<open>n\<close> and \<open>LIMIT\<close>.\<close>

function parse_loop ::
  "allocator \<Rightarrow> bytes \<Rightarrow> nat \<Rightarrow> HttpMessage \<Rightarrow> HttpMessage \<times> (errno + nat)" where
  "parse_loop al p n r =
     (if r_i r < n then
        (case http_switch al p n r of
           Next r' \<Rightarrow> parse_loop al p n (r'\<lparr>r_i := r_i r' + 1\<rparr>)
         | Stop x \<Rightarrow> x)
      else if r_i r < LIMIT then (r, Inr 0)
      else (r, Inl EBADMSG))"
  by pat_completeness auto
termination
  by (relation "measure (\<lambda>(al, p, n, r). n - r_i r)") (auto dest!: http_switch_i_le)

declare parse_loop.simps [simp del]

definition ParseHttpMessage ::
  "allocator \<Rightarrow> HttpMessage \<Rightarrow> bytes \<Rightarrow> nat \<Rightarrow> HttpMessage \<times> (errno + nat)" where
  "ParseHttpMessage al r p n = parse_loop al p (min n LIMIT) r"

subsection \<open>One byte at a time\<close>

text \<open>The reference parser: the label of the current state, once per byte.\<close>

definition http_label :: "allocator \<Rightarrow> bytes \<Rightarrow> HttpMessage \<Rightarrow> byte \<Rightarrow> act" where
  "http_label al p r c =
     (case r_t r of
        kHttpStateStart \<Rightarrow> Leave (case_Start r c)
      | kHttpStateMethod \<Rightarrow> case_Method p r c
      | kHttpStateUri \<Rightarrow> case_Uri r c
      | kHttpStateVersion \<Rightarrow> Leave (case_Version p r c)
      | kHttpStateStatus \<Rightarrow> case_Status r c
      | kHttpStateMessage \<Rightarrow> case_Message r c
      | kHttpStateCr \<Rightarrow> Leave (case_Cr r c)
      | kHttpStateLf1 \<Rightarrow> Leave (case_Lf1 r c)
      | kHttpStateName \<Rightarrow> case_Name r c
      | kHttpStateColon \<Rightarrow>
          if c = ch_SP \<or> c = ch_HT then Leave (Next r)
          else case_Value al p (r\<lparr>r_a := r_i r, r_t := kHttpStateValue\<rparr>) c
      | kHttpStateValue \<Rightarrow> case_Value al p r c
      | kHttpStateLf2 \<Rightarrow> Leave (case_Lf2 r c))"

abbreviation advance :: "HttpMessage \<Rightarrow> HttpMessage" where
  "advance r \<equiv> r\<lparr>r_i := r_i r + 1\<rparr>"

definition http_step :: "allocator \<Rightarrow> bytes \<Rightarrow> HttpMessage \<Rightarrow> byte \<Rightarrow> ctl" where
  "http_step al p r c =
     (case http_label al p r c of
        Again r' \<Rightarrow> Next (advance r')
      | Leave (Next r') \<Rightarrow> Next (advance r')
      | Leave (Stop x) \<Rightarrow> Stop x)"

lemma http_step_i: "http_step al p r c = Next r' \<Longrightarrow> r_i r' = r_i r + 1"
  by (auto simp: http_step_def http_label_def
           split: act.splits outcome.splits HttpState.splits if_splits
           dest: case_Again case_Next_i)

text \<open>
  A label's own loop is a run of the reference: it breaks after some of the bytes in the state the
  reference has, or it uses up all of them and leaves \<open>r_i\<close> one past the end.
\<close>

lemma inner_for_run:
  assumes body: "\<And>r c. r_t r = t \<Longrightarrow> http_label al p r c = body r c"
    and again: "\<And>r c r'. body r c = Again r' \<Longrightarrow> r_i r' = r_i r \<and> r_t r' = r_t r"
    and leave: "\<And>r c r'. body r c = Leave (Next r') \<Longrightarrow> r_i r' = r_i r"
    and "r_t r = t"
  shows "case inner_for body r c cs of
           Next r' \<Rightarrow>
             (if r_i r' = r_i r + length (c # cs) then fst (run_machine (http_step al p) r (c # cs)) = Next r'
              else r_i r' < r_i r + length (c # cs) \<and> r_i r \<le> r_i r' \<and>
                   fst (run_machine (http_step al p) r (c # cs)) =
                   fst (run_machine (http_step al p) (advance r') (drop (r_i r' - r_i r) cs)))
         | Stop x \<Rightarrow> fst (run_machine (http_step al p) r (c # cs)) = Stop x"
  using \<open>r_t r = t\<close>
proof (induction cs arbitrary: r c)
  case Nil
  then show ?case
    by (auto simp: http_step_def body split: act.splits outcome.splits dest: again leave)
next
  case (Cons c' cs)
  show ?case
  proof (cases "body r c")
    case (Leave x)
    then show ?thesis
      using Cons.prems by (auto simp: http_step_def body split: outcome.splits prod.splits dest: leave)
  next
    case (Again r1)
    with again have r1: "r_i r1 = r_i r" "r_t r1 = t" using Cons.prems by auto
    have step: "http_step al p r c = Next (advance r1)"
      using Again Cons.prems by (simp add: http_step_def body)
    have shift: "drop (r_i r' - r_i r) (c' # cs) = drop (r_i r' - Suc (r_i r)) cs"
      if "Suc (r_i r) \<le> r_i r'" for r'
      using that by (simp add: drop_Cons' Suc_diff_le)
    from Cons.IH [of "advance r1" c'] r1 Again step show ?thesis
      by (auto simp: shift split: outcome.splits prod.splits if_splits)
  qed
qed

text \<open>One \<open>switch\<close> of the source is a run of the reference over the bytes it looks at.\<close>

lemma http_switch_run:
  assumes "r_i r < n" "n \<le> length p"
  shows "case http_switch al p n r of
           Next r' \<Rightarrow>
             (if r_i r' = n then
                fst (run_machine (http_step al p) r (drop (r_i r) (take n p))) = Next r'
              else r_i r' < n \<and> r_i r \<le> r_i r' \<and>
                fst (run_machine (http_step al p) r (drop (r_i r) (take n p))) =
                fst (run_machine (http_step al p) (advance r') (drop (r_i (advance r')) (take n p))))
         | Stop x \<Rightarrow> fst (run_machine (http_step al p) r (drop (r_i r) (take n p))) = Stop x"
proof -
  define c where "c = p ! r_i r"
  define cs where "cs = drop (r_i r + 1) (take n p)"
  have split: "drop (r_i r) (take n p) = c # cs"
    using assms by (simp add: c_def cs_def Cons_nth_drop_Suc [symmetric])
  have len: "r_i r + length (c # cs) = n" using assms by (simp add: cs_def)
  have tail: "drop (k - r_i r) cs = drop (k + 1) (take n p)" if "r_i r \<le> k" for k
    using that by (simp add: cs_def)
  have once: ?thesis if "http_switch al p n r = x" "http_label al p r c = Leave x"
      "\<And>r'. x = Next r' \<Longrightarrow> r_i r' = r_i r" for x
  proof (cases x)
    case (Next r')
    with that have "r_i r' = r_i r" "http_step al p r c = Next (advance r')"
      by (simp_all add: http_step_def)
    with assms(1) show ?thesis
      unfolding split that(1) Next by (simp add: cs_def split: prod.split)
  next
    case (Stop y)
    with that(2) have "http_step al p r c = Stop y" by (simp add: http_step_def)
    then show ?thesis unfolding split that(1) Stop by simp
  qed
  have many: ?thesis
    if sw: "http_switch al p n r = inner_for body r' c cs" and "r_t r' = t" and i: "r_i r' = r_i r"
      and run: "run_machine (http_step al p) r (c # cs) = run_machine (http_step al p) r' (c # cs)"
      and "\<And>r c. r_t r = t \<Longrightarrow> http_label al p r c = body r c"
      and "\<And>r c r'. body r c = Again r' \<Longrightarrow> r_i r' = r_i r \<and> r_t r' = r_t r"
      and "\<And>r c r'. body r c = Leave (Next r') \<Longrightarrow> r_i r' = r_i r" for body r' t
    using inner_for_run [of t al p body r' c cs, OF that(5-7) that(2)] len tail
    unfolding split sw run i
    by (auto simp del: run_machine.simps split: outcome.splits if_splits)
  show ?thesis
  proof (cases "r_t r")
    case kHttpStateColon
    then show ?thesis
    proof (cases "c = ch_SP \<or> c = ch_HT")
      case True
      with kHttpStateColon show ?thesis
        by (intro once [of "Next r"])
           (auto simp: http_switch_def http_label_def c_def Let_def)
    next
      case False
      with kHttpStateColon show ?thesis
        by (intro many [where body = "case_Value al p" and t = kHttpStateValue
                          and r' = "r\<lparr>r_a := r_i r, r_t := kHttpStateValue\<rparr>"])
           (auto simp: http_switch_def http_step_def http_label_def c_def cs_def Let_def
                 dest: case_Again case_Next_i)
    qed
  next
    case kHttpStateStart
    then show ?thesis
      by (intro once [of "case_Start r c"])
         (auto simp: http_switch_def http_label_def c_def Let_def dest: case_Next_i)
  next
    case kHttpStateVersion
    then show ?thesis
      by (intro once [of "case_Version p r c"])
         (auto simp: http_switch_def http_label_def c_def Let_def dest: case_Next_i)
  next
    case kHttpStateCr
    then show ?thesis
      by (intro once [of "case_Cr r c"])
         (auto simp: http_switch_def http_label_def c_def Let_def dest: case_Next_i)
  next
    case kHttpStateLf1
    then show ?thesis
      by (intro once [of "case_Lf1 r c"])
         (auto simp: http_switch_def http_label_def c_def Let_def dest: case_Next_i)
  next
    case kHttpStateLf2
    then show ?thesis
      by (intro once [of "case_Lf2 r c"])
         (auto simp: http_switch_def http_label_def c_def Let_def dest: case_Next_i)
  next
    case kHttpStateMethod
    then show ?thesis
      by (intro many [where body = "case_Method p" and t = kHttpStateMethod and r' = r])
         (auto simp: http_switch_def http_label_def c_def cs_def Let_def dest: case_Again case_Next_i)
  next
    case kHttpStateUri
    then show ?thesis
      by (intro many [where body = "case_Uri" and t = kHttpStateUri and r' = r])
         (auto simp: http_switch_def http_label_def c_def cs_def Let_def dest: case_Again case_Next_i)
  next
    case kHttpStateStatus
    then show ?thesis
      by (intro many [where body = "case_Status" and t = kHttpStateStatus and r' = r])
         (auto simp: http_switch_def http_label_def c_def cs_def Let_def dest: case_Again case_Next_i)
  next
    case kHttpStateMessage
    then show ?thesis
      by (intro many [where body = "case_Message" and t = kHttpStateMessage and r' = r])
         (auto simp: http_switch_def http_label_def c_def cs_def Let_def dest: case_Again case_Next_i)
  next
    case kHttpStateName
    then show ?thesis
      by (intro many [where body = "case_Name" and t = kHttpStateName and r' = r])
         (auto simp: http_switch_def http_label_def c_def cs_def Let_def dest: case_Again case_Next_i)
  next
    case kHttpStateValue
    then show ?thesis
      by (intro many [where body = "case_Value al p" and t = kHttpStateValue and r' = r])
         (auto simp: http_switch_def http_label_def c_def cs_def Let_def dest: case_Again case_Next_i)
  qed
qed

lemma parse_loop_run:
  assumes "r_i r \<le> n" "n \<le> length p"
  shows "case fst (run_machine (http_step al p) r (drop (r_i r) (take n p))) of
           Stop x \<Rightarrow> parse_loop al p n r = x
         | Next r' \<Rightarrow>
             \<exists>k \<in> {n, n + 1}.
               parse_loop al p n r = (r'\<lparr>r_i := k\<rparr>, if k < LIMIT then Inr 0 else Inl EBADMSG)"
  using assms
proof (induction al p n r rule: parse_loop.induct)
  case (1 al p n r)
  show ?case
  proof (cases "r_i r < n")
    case False
    with "1.prems" have "r_i r = n" by simp
    with False show ?thesis by (subst parse_loop.simps) (auto intro!: bexI [of _ n])
  next
    case True
    note sw = http_switch_run [OF True "1.prems"(2), of al]
    show ?thesis
    proof (cases "http_switch al p n r")
      case (Stop x)
      with sw True show ?thesis by (subst parse_loop.simps) simp
    next
      case (Next r')
      note step = parse_loop.simps [of al p n r]
      show ?thesis
      proof (cases "r_i r' = n")
        case True
        have "parse_loop al p n (advance r') =
          (advance r', if n + 1 < LIMIT then Inr 0 else Inl EBADMSG)"
          using True by (subst parse_loop.simps) auto
        with \<open>r_i r < n\<close> Next sw True show ?thesis by (auto simp: step)
      next
        case False
        have eq: "parse_loop al p n r = parse_loop al p n (advance r')"
          using Next \<open>r_i r < n\<close> by (simp add: step)
        from False Next sw have "r_i (advance r') \<le> n"
          and run: "fst (run_machine (http_step al p) r (drop (r_i r) (take n p))) =
            fst (run_machine (http_step al p) (advance r') (drop (r_i (advance r')) (take n p)))"
          by auto
        with "1.IH" [OF \<open>r_i r < n\<close> Next] "1.prems"(2) show ?thesis
          unfolding eq run by blast
      qed
    qed
  qed
qed




subsection \<open>Reading the result\<close>

text \<open>\<open>HeaderHas\<close>; the index \<open>h\<close> is a known header, as its \<open>unassert\<close> demands.\<close>

definition HeaderHas :: "HttpMessage \<Rightarrow> bytes \<Rightarrow> nat \<Rightarrow> cstr \<Rightarrow> bool" where
  "HeaderHas m b h s0 =
     (let s = arg_bytes s0 in
      if sl_a (r_headers m ! h) \<noteq> 0 then
        if memmem (slice_of b (r_headers m ! h)) s \<noteq> None then True
        else if kHttpRepeatable h then
          list_ex (\<lambda>x. GetHttpHeader (slice_of b (h_k x)) = Some h \<and> memmem (slice_of b (h_v x)) s \<noteq> None)
            (xh_p (r_xheaders m))
        else False
      else False)"

text \<open>The loop of \<open>FoldHeader\<close>; \<open>None\<close> when \<open>realloc\<close> fails.\<close>

fun fold_loop :: "allocator \<Rightarrow> bytes \<Rightarrow> nat \<Rightarrow> bytes \<Rightarrow> HttpHeader list \<Rightarrow> bytes option" where
  "fold_loop al b h p [] = Some p"
| "fold_loop al b h p (x # xs) =
     (if GetHttpHeader (slice_of b (h_k x)) = Some h then
        (let m = sl_b (h_v x) - sl_a (h_v x) in
         if al (length p + 2 + m) then fold_loop al b h (p @ str '', '' @ slice_of b (h_v x)) xs
         else None)
      else fold_loop al b h p xs)"

definition FoldHeader :: "allocator \<Rightarrow> HttpMessage \<Rightarrow> bytes \<Rightarrow> nat \<Rightarrow> bytes option" where
  "FoldHeader al msg b h =
     (let n = sl_b (r_headers msg ! h) - sl_a (r_headers msg ! h) in
      if al n then fold_loop al b h (slice_of b (r_headers msg ! h)) (xh_p (r_xheaders msg))
      else None)"

subsection \<open>What the parser stores\<close>

text \<open>
  The abstract store: the value of each known header that has its own slice, and the list of the
  other headers in the order they came.
\<close>

type_synonym hstore = "(nat \<rightharpoonup> bytes) \<times> (bytes \<times> bytes) list"

fun keep_header :: "bytes \<times> bytes \<Rightarrow> hstore \<Rightarrow> hstore" where
  "keep_header (k, v) (m, xs) =
     (case GetHttpHeader k of
        Some h \<Rightarrow> if m h = None \<or> \<not> kHttpRepeatable h then (m(h \<mapsto> v), xs) else (m, xs @ [(k, v)])
      | None \<Rightarrow> (m, xs @ [(k, v)]))"

definition hdr_abs :: "bytes \<Rightarrow> HttpMessage \<Rightarrow> hstore" where
  "hdr_abs p r =
     ((\<lambda>h. if h < length (r_headers r) \<and> sl_a (r_headers r ! h) \<noteq> 0
           then Some (slice_of p (r_headers r ! h)) else None),
      map (\<lambda>x. (slice_of p (h_k x), slice_of p (h_v x))) (xh_p (r_xheaders r)))"

definition hdr_wf :: "HttpMessage \<Rightarrow> bool" where
  "hdr_wf r \<longleftrightarrow> length (r_headers r) = kHttpHeadersMax \<and>
                length (xh_p (r_xheaders r)) \<le> xh_c (r_xheaders r)"

lemma header_words_less: "list_all (\<lambda>e. snd e < kHttpHeadersMax) HttpHeader_wordlist"
  by (simp add: HttpHeader_wordlist_def kHttpHeadersMax_def)

lemma GetHttpHeader_less:
  assumes "GetHttpHeader s = Some h" shows "h < kHttpHeadersMax"
proof -
  from assms obtain e where e: "LookupHttpHeader s = Some e" "snd e = h"
    by (auto simp: GetHttpHeader_def)
  then have "e \<in> set HttpHeader_wordlist"
    by (auto simp: LookupHttpHeader_def Let_def length_wordlists split: if_splits)
  then show ?thesis using header_words_less e(2) by (auto simp: list_all_iff)
qed

text \<open>When memory is there, storing a header line is the abstract operation.\<close>

lemma store_header_abs:
  assumes "hdr_wf r" "0 < r_a r" "\<And>n. al n"
  shows "hdr_abs p (store_header al p r) =
           keep_header (slice_of p (r_k r), slice_of p (mk_slice (r_a r) (trim_end p (r_a r) (r_i r))))
             (hdr_abs p r)"
    and "hdr_wf (store_header al p r)"
proof -
  let ?v = "mk_slice (r_a r) (trim_end p (r_a r) (r_i r))"
  let ?other = "push_xheader \<lparr>h_k = r_k r, h_v = ?v\<rparr> (grow_xheaders al (r_xheaders r))"
  have push: "xh_p ?other = xh_p (r_xheaders r) @ [\<lparr>h_k = r_k r, h_v = ?v\<rparr>]"
    "length (xh_p ?other) \<le> xh_c ?other"
    using assms(1,3) by (auto simp: hdr_wf_def push_xheader_def grow_xheaders_def Let_def)
  show "hdr_abs p (store_header al p r) = keep_header (slice_of p (r_k r), slice_of p ?v) (hdr_abs p r)"
  proof (cases "GetHttpHeader (slice_of p (r_k r))")
    case None
    with push show ?thesis by (simp add: store_header_def hdr_abs_def Let_def fun_eq_iff)
  next
    case (Some h)
    then have "h < length (r_headers r)"
      using GetHttpHeader_less assms(1) by (simp add: hdr_wf_def)
    with Some push assms(2) show ?thesis
      by (auto simp: store_header_def hdr_abs_def Let_def nth_list_update fun_eq_iff)
  qed
  show "hdr_wf (store_header al p r)"
    using assms(1) push(2)
    by (auto simp: hdr_wf_def store_header_def Let_def split: option.split)
qed

subsection \<open>Runs over the pieces of a message\<close>

definition runs :: "allocator \<Rightarrow> bytes \<Rightarrow> HttpMessage \<Rightarrow> bytes \<Rightarrow> HttpMessage \<Rightarrow> bool" where
  "runs al p r xs r' \<longleftrightarrow> run_machine (http_step al p) r xs = (Next r', length xs)"

lemma runs_Nil [simp]: "runs al p r [] r' \<longleftrightarrow> r' = r"
  by (auto simp: runs_def)

lemma runs_append: "runs al p r xs r' \<Longrightarrow> runs al p r' ys r'' \<Longrightarrow> runs al p r (xs @ ys) r''"
  by (simp add: runs_def run_machine_append)

lemma runs_one: "http_step al p r c = Next r' \<Longrightarrow> runs al p r [c] r'"
  by (simp add: runs_def)

text \<open>A label that goes round on every byte of a piece only moves the index.\<close>

lemma runs_again:
  assumes "\<And>c r. c \<in> set xs \<Longrightarrow> r_t r = t \<Longrightarrow> http_label al p r c = Again r" "r_t r = t"
  shows "runs al p r xs (r\<lparr>r_i := r_i r + length xs\<rparr>)"
  using assms
proof (induction xs arbitrary: r)
  case (Cons c cs)
  have "http_step al p r c = Next (advance r)" using Cons.prems by (simp add: http_step_def)
  then have "runs al p r [c] (advance r)" by (rule runs_one)
  moreover have "runs al p (advance r) cs ((advance r)\<lparr>r_i := r_i (advance r) + length cs\<rparr>)"
    using Cons.prems by (intro Cons.IH) auto
  ultimately show ?case using runs_append [of al p r "[c]" "advance r" cs] by simp
qed simp

lemma slice_mid [simp]:
  "slice_of (pre @ k @ post) (mk_slice (length pre) (length pre + length k)) = k"
  by (simp add: slice_of_def)

lemma trim_end_id:
  assumes "v = [] \<or> last v \<noteq> ch_SP \<and> last v \<noteq> ch_HT"
  shows "trim_end (pre @ v @ post) (length pre) (length pre + length v) = length pre + length v"
proof (cases v rule: rev_cases)
  case Nil
  then show ?thesis by (cases "length pre") (auto simp: nth_append)
next
  case (snoc ys y)
  with assms show ?thesis by (simp add: nth_append)
qed

text \<open>The first byte of a value is looked at in the state \<open>kHttpStateValue\<close> already.\<close>

abbreviation (input) enter_value :: "HttpMessage \<Rightarrow> HttpMessage" where
  "enter_value r \<equiv> r\<lparr>r_a := r_i r, r_t := kHttpStateValue\<rparr>"

lemma runs_enter_value:
  assumes "r_t r = kHttpStateColon" "c \<noteq> ch_SP" "c \<noteq> ch_HT"
  shows "runs al p r (c # cs) r' \<longleftrightarrow> runs al p (enter_value r) (c # cs) r'"
  using assms by (simp add: runs_def http_step_def http_label_def)

definition value_byte :: "byte \<Rightarrow> bool" where
  "value_byte c \<longleftrightarrow> \<not> ((c < 0x20 \<and> c \<noteq> ch_HT) \<or> (0x7F \<le> c \<and> c < 0xA0))"

lemma value_byte_not_eol: "value_byte c \<Longrightarrow> c \<noteq> ch_CR \<and> c \<noteq> ch_LF"
  by (auto simp: value_byte_def)

lemma token_not_special:
  "kHttpToken c \<noteq> 0 \<Longrightarrow> c \<noteq> ch_SP \<and> c \<noteq> ch_CR \<and> c \<noteq> ch_LF \<and> c \<noteq> ch_HT \<and> c \<noteq> 0x3A"
  by (auto simp: kHttpToken_eq)

text \<open>A header line and when it is well formed.\<close>

definition header_line :: "bytes \<times> bytes \<Rightarrow> bytes" where
  "header_line kv = fst kv @ [0x3A, ch_SP] @ snd kv @ [ch_CR, ch_LF]"

definition header_ok :: "bytes \<times> bytes \<Rightarrow> bool" where
  "header_ok kv \<longleftrightarrow>
     fst kv \<noteq> [] \<and> (\<forall>c \<in> set (fst kv). kHttpToken c \<noteq> 0) \<and>
     (\<forall>c \<in> set (snd kv). value_byte c) \<and>
     (snd kv = [] \<or> hd (snd kv) \<notin> {ch_SP, ch_HT} \<and> last (snd kv) \<notin> {ch_SP, ch_HT})"

text \<open>The state after a header line, written out.\<close>

definition after_header :: "allocator \<Rightarrow> bytes \<Rightarrow> HttpMessage \<Rightarrow> nat \<Rightarrow> nat \<Rightarrow> HttpMessage" where
  "after_header al p r lk lv =
     (store_header al p
        (r\<lparr>r_k := mk_slice (r_i r) (r_i r + lk), r_a := r_i r + lk + 2, r_t := kHttpStateValue,
           r_i := r_i r + lk + 2 + lv\<rparr>))
     \<lparr>r_t := kHttpStateLf1, r_i := r_i r + lk + lv + 4\<rparr>"

lemma runs_name:
  assumes "r_t r = kHttpStateLf1" "k \<noteq> []" "\<forall>c \<in> set k. kHttpToken c \<noteq> 0"
  shows "runs al p r (k @ [0x3A, ch_SP])
           (r\<lparr>r_k := mk_slice (r_i r) (r_i r + length k), r_t := kHttpStateColon,
              r_i := r_i r + length k + 2\<rparr>)"
proof -
  obtain c k' where k: "k = c # k'" using assms(2) by (cases k) auto
  let ?r1 = "r\<lparr>r_k := (r_k r)\<lparr>sl_a := r_i r\<rparr>, r_t := kHttpStateName, r_i := r_i r + 1\<rparr>"
  have "runs al p r [c] ?r1"
    using assms(1,3) token_not_special [of c] k
    by (intro runs_one) (simp add: http_step_def http_label_def case_Lf1_def)
  moreover have "runs al p ?r1 k' (?r1\<lparr>r_i := r_i ?r1 + length k'\<rparr>)"
    using assms(3) token_not_special k
    by (intro runs_again [where t = kHttpStateName]) (auto simp: http_label_def case_Name_def)
  moreover have "runs al p (?r1\<lparr>r_i := r_i ?r1 + length k'\<rparr>) [0x3A, ch_SP]
      (r\<lparr>r_k := mk_slice (r_i r) (r_i r + length k), r_t := kHttpStateColon,
         r_i := r_i r + length k + 2\<rparr>)"
    by (simp add: k runs_def http_step_def http_label_def case_Name_def)
  ultimately have "runs al p r ([c] @ k' @ [0x3A, ch_SP])
      (r\<lparr>r_k := mk_slice (r_i r) (r_i r + length k), r_t := kHttpStateColon,
         r_i := r_i r + length k + 2\<rparr>)"
    by (intro runs_append)
  then show ?thesis by (simp add: k)
qed

lemma runs_value:
  assumes "r_t r = kHttpStateColon" "\<forall>c \<in> set v. value_byte c" "v = [] \<or> hd v \<notin> {ch_SP, ch_HT}"
  shows "runs al p r (v @ [ch_CR, ch_LF])
           ((store_header al p ((enter_value r)\<lparr>r_i := r_i r + length v\<rparr>))
            \<lparr>r_t := kHttpStateLf1, r_i := r_i r + length v + 2\<rparr>)"
proof -
  let ?r1 = "(enter_value r)\<lparr>r_i := r_i r + length v\<rparr>"
  obtain c cs where c: "v @ [ch_CR, ch_LF] = c # cs" "c \<noteq> ch_SP" "c \<noteq> ch_HT"
    using assms(3) by (cases v) auto
  have "runs al p (enter_value r) v ((enter_value r)\<lparr>r_i := r_i (enter_value r) + length v\<rparr>)"
    using assms(2) value_byte_not_eol
    by (intro runs_again [where t = kHttpStateValue])
       (auto simp: http_label_def case_Value_def value_byte_def)
  moreover have "runs al p ?r1 [ch_CR, ch_LF]
      ((store_header al p ?r1)\<lparr>r_t := kHttpStateLf1, r_i := r_i r + length v + 2\<rparr>)"
    by (simp add: runs_def http_step_def http_label_def case_Value_def case_Cr_def)
  ultimately have "runs al p (enter_value r) (v @ [ch_CR, ch_LF])
      ((store_header al p ?r1)\<lparr>r_t := kHttpStateLf1, r_i := r_i r + length v + 2\<rparr>)"
    by (intro runs_append) auto
  then show ?thesis
    using runs_enter_value [OF assms(1) c(2,3)] by (simp add: c(1))
qed

lemma runs_header:
  assumes "r_t r = kHttpStateLf1" "header_ok (k, v)"
  shows "runs al p r (header_line (k, v)) (after_header al p r (length k) (length v))"
proof -
  let ?r1 = "r\<lparr>r_k := mk_slice (r_i r) (r_i r + length k), r_t := kHttpStateColon,
               r_i := r_i r + length k + 2\<rparr>"
  have "runs al p r (k @ [0x3A, ch_SP]) ?r1"
    using assms by (intro runs_name) (auto simp: header_ok_def)
  moreover have "runs al p ?r1 (v @ [ch_CR, ch_LF])
     ((store_header al p ((enter_value ?r1)\<lparr>r_i := r_i ?r1 + length v\<rparr>))
            \<lparr>r_t := kHttpStateLf1, r_i := r_i ?r1 + length v + 2\<rparr>)"
    using assms by (intro runs_value) (auto simp: header_ok_def)
  ultimately have "runs al p r ((k @ [0x3A, ch_SP]) @ v @ [ch_CR, ch_LF])
     ((store_header al p ((enter_value ?r1)\<lparr>r_i := r_i ?r1 + length v\<rparr>))
            \<lparr>r_t := kHttpStateLf1, r_i := r_i ?r1 + length v + 2\<rparr>)"
    by (rule runs_append)
  then show ?thesis by (simp add: header_line_def after_header_def eval_nat_numeral)
qed

lemma hdr_update [simp]:
  "hdr_abs p (r\<lparr>r_t := t\<rparr>) = hdr_abs p r" "hdr_abs p (r\<lparr>r_i := i\<rparr>) = hdr_abs p r"
  "hdr_abs p (r\<lparr>r_a := a\<rparr>) = hdr_abs p r" "hdr_abs p (r\<lparr>r_k := k\<rparr>) = hdr_abs p r"
  "hdr_wf (r\<lparr>r_t := t\<rparr>) = hdr_wf r" "hdr_wf (r\<lparr>r_i := i\<rparr>) = hdr_wf r"
  "hdr_wf (r\<lparr>r_a := a\<rparr>) = hdr_wf r" "hdr_wf (r\<lparr>r_k := k\<rparr>) = hdr_wf r"
  by (simp_all add: hdr_abs_def hdr_wf_def fun_eq_iff)

lemma after_header_abs:
  assumes "p = pre @ header_line (k, v) @ post" "r_i r = length pre" "hdr_wf r" "header_ok (k, v)"
    "\<And>n. al n"
  shows "hdr_abs p (after_header al p r (length k) (length v)) = keep_header (k, v) (hdr_abs p r)"
    and "hdr_wf (after_header al p r (length k) (length v))"
proof -
  let ?r = "r\<lparr>r_k := mk_slice (r_i r) (r_i r + length k), r_a := r_i r + length k + 2,
              r_t := kHttpStateValue, r_i := r_i r + length k + 2 + length v\<rparr>"
  have key: "slice_of p (r_k ?r) = k"
    using assms(1,2) by (simp add: header_line_def)
  have p: "p = (pre @ k @ [0x3A, ch_SP]) @ v @ ([ch_CR, ch_LF] @ post)"
    using assms(1) by (simp add: header_line_def)
  have a: "r_a ?r = length (pre @ k @ [0x3A, ch_SP])"
    and i: "r_i ?r = length (pre @ k @ [0x3A, ch_SP]) + length v"
    using assms(2) by simp_all
  have "trim_end p (r_a ?r) (r_i ?r) = r_i ?r"
    unfolding a i by (subst p, rule trim_end_id) (use assms(4) in \<open>auto simp: header_ok_def\<close>)
  then have val: "slice_of p (mk_slice (r_a ?r) (trim_end p (r_a ?r) (r_i ?r))) = v"
    unfolding a i by (subst p) (simp only: slice_mid)
  have wf: "hdr_wf ?r" using assms(3) by simp
  have pos: "0 < r_a ?r" by simp
  show "hdr_abs p (after_header al p r (length k) (length v)) = keep_header (k, v) (hdr_abs p r)"
    using store_header_abs(1) [OF wf pos assms(5), where p = p]
    unfolding key val by (simp add: after_header_def)
  show "hdr_wf (after_header al p r (length k) (length v))"
    using store_header_abs(2) [OF wf pos assms(5), where p = p] by (simp add: after_header_def)
qed

text \<open>What the first line of a message determines.\<close>

definition first_line :: "HttpMessage \<Rightarrow> HttpType \<times> nat \<times> nat \<times> nat \<times> HttpSlice \<times> HttpSlice \<times> HttpSlice" where
  "first_line r = (r_type r, r_method r, r_version r, r_status r, r_uri r, r_message r, r_xmethod r)"

lemma runs_headers:
  assumes "p = pre @ concat (map header_line hs) @ post" "r_i r = length pre" "r_t r = kHttpStateLf1"
    "hdr_wf r" "list_all header_ok hs" "\<And>n. al n"
  shows "\<exists>r'. runs al p r (concat (map header_line hs)) r' \<and> r_t r' = kHttpStateLf1 \<and>
           r_i r' = r_i r + length (concat (map header_line hs)) \<and>
           hdr_abs p r' = fold keep_header hs (hdr_abs p r) \<and> first_line r' = first_line r"
  using assms
proof (induction hs arbitrary: pre r)
  case (Cons h hs)
  obtain k v where h: "h = (k, v)" by (cases h)
  let ?r = "after_header al p r (length k) (length v)"
  have ok: "header_ok (k, v)" using Cons.prems h by simp
  have p: "p = pre @ header_line (k, v) @ (concat (map header_line hs) @ post)"
    using Cons.prems(1) h by simp
  note abs = after_header_abs [OF p Cons.prems(2,4) ok Cons.prems(6)]
  have p': "p = (pre @ header_line (k, v)) @ concat (map header_line hs) @ post" using p by simp
  have i': "r_i ?r = length (pre @ header_line (k, v))"
    using Cons.prems(2) by (simp add: after_header_def header_line_def)
  have t': "r_t ?r = kHttpStateLf1" by (simp add: after_header_def)
  have ok': "list_all header_ok hs" using Cons.prems(5) by simp
  obtain r' where r': "runs al p ?r (concat (map header_line hs)) r'"
      "r_t r' = kHttpStateLf1" "r_i r' = r_i ?r + length (concat (map header_line hs))"
      "hdr_abs p r' = fold keep_header hs (hdr_abs p ?r)" "first_line r' = first_line ?r"
    using Cons.IH [OF p' i' t' abs(2) ok' Cons.prems(6)] by blast
  have "runs al p r (header_line (k, v) @ concat (map header_line hs)) r'"
    using runs_header [OF Cons.prems(3) ok] r'(1) by (rule runs_append)
  moreover have "first_line ?r = first_line r" by (simp add: first_line_def after_header_def)
  moreover have "r_i ?r = r_i r + length (header_line (k, v))"
    by (simp add: after_header_def header_line_def)
  ultimately show ?case using r' abs(1) h by (intro exI [of _ r']) auto
qed simp


subsection \<open>Requests\<close>

lemma READ64BE_step:
  "(push_bit 8 w OR ucast c) AND (push_bit 8 m OR ucast k) = push_bit 8 (w AND m) OR ucast (c AND k)"
  for w m :: "64 word" and c k :: byte
  by (rule bit_word_eqI) (auto simp: bit_simps dest: bit_imp_le_length)

lemma READ64BE_foldl:
  "length xs = length ys \<Longrightarrow>
   foldl (\<lambda>w c. push_bit 8 w OR ucast c) w xs AND foldl (\<lambda>w c. push_bit 8 w OR ucast c) m ys =
   foldl (\<lambda>w c. push_bit 8 w OR ucast c) (w AND m) (map2 (AND) xs ys)"
  for w m :: "64 word" and xs ys :: bytes
  by (induction xs ys arbitrary: w m rule: list_induct2) (simp_all add: READ64BE_step)

lemma READ64BE_mask:
  "READ64BE (a # b # c # d # e # f # g # h # xs) AND 0xFFFFFFFFFF00FF00 = READ64BE [a, b, c, d, e, 0, g, 0]"
proof -
  have "READ64BE [255, 255, 255, 255, 255, 0, 255, 0] = 0xFFFFFFFFFF00FF00"
    by (simp add: READ64BE_def)
  moreover have "READ64BE (a # b # c # d # e # f # g # h # xs) AND READ64BE [255, 255, 255, 255, 255, 0, 255, 0] =
    READ64BE [a AND 255, b AND 255, c AND 255, d AND 255, e AND 255, 0, g AND 255, 0]"
    using READ64BE_foldl [of "[a, b, c, d, e, f, g, h]" "[255, 255, 255, 255, 255, 0, 255, 0]" 0 0]
    unfolding READ64BE_def by simp
  moreover have "x AND 255 = x" for x :: byte
  proof -
    have "(255 :: byte) = - 1" by simp
    then show ?thesis by (metis and.right_neutral)
  qed
  ultimately show ?thesis by simp
qed

text \<open>The bytes of an HTTP version, and that the masked comparison accepts exactly their shape.\<close>

definition version_bytes :: "byte \<Rightarrow> byte \<Rightarrow> bytes" where
  "version_bytes d1 d2 = str ''HTTP/'' @ [d1] @ str ''.'' @ [d2]"

lemma version_accepted:
  assumes "p = pre @ version_bytes d1 d2 @ post" "a = length pre"
  shows "READ64BE (drop a p) AND 0xFFFFFFFFFF00FF00 = 0x485454502F002E00"
    "p ! (a + 5) = d1" "p ! (a + 7) = d2"
  using assms by (simp_all add: version_bytes_def str_def READ64BE_mask)
    (simp_all add: READ64BE_def nth_append)

lemma version_byte_plain:
  "isdigit d1 \<Longrightarrow> isdigit d2 \<Longrightarrow> \<forall>c \<in> set (version_bytes d1 d2). c \<noteq> ch_SP \<and> c \<noteq> ch_CR \<and> c \<noteq> ch_LF"
  by (auto simp: version_bytes_def str_def isdigit_def)

text \<open>A label that breaks on every byte of a piece, without touching the state, moves the index too.\<close>

lemma runs_break:
  assumes "\<And>c r. c \<in> set xs \<Longrightarrow> r_t r = t \<Longrightarrow> http_label al p r c = Leave (Next r)" "r_t r = t"
  shows "runs al p r xs (r\<lparr>r_i := r_i r + length xs\<rparr>)"
  using assms
proof (induction xs arbitrary: r)
  case (Cons c cs)
  have "http_step al p r c = Next (advance r)" using Cons.prems by (simp add: http_step_def)
  then have "runs al p r [c] (advance r)" by (rule runs_one)
  moreover have "runs al p (advance r) cs ((advance r)\<lparr>r_i := r_i (advance r) + length cs\<rparr>)"
    using Cons.prems by (intro Cons.IH) auto
  ultimately show ?case using runs_append [of al p r "[c]" "advance r" cs] by simp
qed simp

definition uri_byte :: "byte \<Rightarrow> bool" where
  "uri_byte c \<longleftrightarrow> c \<noteq> ch_SP \<and> \<not> iscontrol c"

definition request_line :: "bytes \<Rightarrow> bytes \<Rightarrow> byte \<Rightarrow> byte \<Rightarrow> bytes" where
  "request_line m u d1 d2 = m @ [ch_SP] @ u @ [ch_SP] @ version_bytes d1 d2 @ [ch_CR, ch_LF]"

definition request_line_ok :: "bytes \<Rightarrow> bytes \<Rightarrow> byte \<Rightarrow> byte \<Rightarrow> bool" where
  "request_line_ok m u d1 d2 \<longleftrightarrow>
     m \<noteq> [] \<and> (\<forall>c \<in> set m. kHttpToken c \<noteq> 0) \<and> u \<noteq> [] \<and> (\<forall>c \<in> set u. uri_byte c) \<and>
     isdigit d1 \<and> isdigit d2"

abbreviation (input) digits2 :: "byte \<Rightarrow> byte \<Rightarrow> nat" where
  "digits2 d1 d2 \<equiv> (unat d1 - 48) * 10 + (unat d2 - 48)"

lemma runs_method:
  assumes "m \<noteq> []" "\<forall>c \<in> set m. kHttpToken c \<noteq> 0"
  shows "runs al p (InitHttpMessage kHttpRequest) (m @ [ch_SP])
    ((InitHttpMessage kHttpRequest)
       \<lparr>r_method := GetHttpMethod (Buf (slice_of p (mk_slice 0 (length m)))),
        r_xmethod := mk_slice 0 (length m), r_a := length m + 1, r_t := kHttpStateUri,
        r_i := length m + 1\<rparr>)" (is "runs al p ?r0 _ ?r3")
proof -
  obtain c m' where m: "m = c # m'" using assms(1) by (cases m) auto
  have z: "r_i ?r0 = 0" "r_a ?r0 = 0" "r_t ?r0 = kHttpStateStart" "r_type ?r0 = kHttpRequest"
    by (simp_all add: InitHttpMessage_def)
  let ?r1 = "?r0\<lparr>r_t := kHttpStateMethod, r_i := 1\<rparr>"
  have a0: "?r0\<lparr>r_a := 0\<rparr> = ?r0" using z by simp
  have "runs al p ?r0 [c] (?r0\<lparr>r_t := kHttpStateMethod, r_a := 0, r_i := 1\<rparr>)"
    using assms(2) token_not_special [of c] m z
    by (intro runs_one) (simp add: http_step_def http_label_def case_Start_def)
  then have "runs al p ?r0 [c] ?r1" by (simp add: InitHttpMessage_def)
  moreover have "runs al p ?r1 m' (?r1\<lparr>r_i := r_i ?r1 + length m'\<rparr>)"
    using assms(2) token_not_special m
    by (intro runs_again [where t = kHttpStateMethod]) (auto simp: http_label_def case_Method_def)
  moreover have "runs al p (?r1\<lparr>r_i := r_i ?r1 + length m'\<rparr>) [ch_SP] ?r3"
    using z by (intro runs_one) (simp add: m http_step_def http_label_def case_Method_def)
  ultimately have "runs al p ?r0 ([c] @ m' @ [ch_SP]) ?r3" by (intro runs_append)
  then show ?thesis by (simp add: m)
qed

lemma runs_uri:
  assumes "u \<noteq> []" "\<forall>c \<in> set u. uri_byte c" "r_t r = kHttpStateUri" "r_a r = r_i r"
  shows "runs al p r (u @ [ch_SP])
    (r\<lparr>r_uri := mk_slice (r_i r) (r_i r + length u), r_a := r_i r + length u + 1,
       r_t := kHttpStateVersion, r_i := r_i r + length u + 1\<rparr>)"
proof -
  let ?r1 = "r\<lparr>r_i := r_i r + length u\<rparr>"
  have "runs al p r u ?r1"
    using assms(2,3)
    by (intro runs_again [where t = kHttpStateUri])
       (auto simp: http_label_def case_Uri_def uri_byte_def iscontrol_def)
  moreover have "runs al p ?r1 [ch_SP]
    (r\<lparr>r_uri := mk_slice (r_i r) (r_i r + length u), r_a := r_i r + length u + 1,
       r_t := kHttpStateVersion, r_i := r_i r + length u + 1\<rparr>)"
    using assms(1,3,4) by (intro runs_one) (simp add: http_step_def http_label_def case_Uri_def Let_def)
  ultimately show ?thesis by (rule runs_append)
qed

lemma runs_version:
  assumes "p = pre @ version_bytes d1 d2 @ [ch_CR, ch_LF] @ post" "r_i r = length pre" "r_a r = r_i r"
    "isdigit d1" "isdigit d2" "r_t r = kHttpStateVersion" "r_type r = kHttpRequest"
  shows "runs al p r (version_bytes d1 d2 @ [ch_CR, ch_LF])
    (r\<lparr>r_version := digits2 d1 d2, r_t := kHttpStateLf1, r_i := r_i r + 10\<rparr>)"
proof -
  have len: "length (version_bytes d1 d2) = 8" by (simp add: version_bytes_def str_def)
  let ?r1 = "r\<lparr>r_i := r_i r + 8\<rparr>"
  have "runs al p r (version_bytes d1 d2) (r\<lparr>r_i := r_i r + length (version_bytes d1 d2)\<rparr>)"
    using version_byte_plain [OF assms(4,5)] assms(6)
    by (intro runs_break [where t = kHttpStateVersion]) (auto simp: http_label_def case_Version_def)
  then have "runs al p r (version_bytes d1 d2) ?r1" by (simp add: len)
  moreover have "runs al p ?r1 [ch_CR, ch_LF]
      (r\<lparr>r_version := digits2 d1 d2, r_t := kHttpStateLf1, r_i := r_i r + 10\<rparr>)"
    using version_accepted [OF assms(1), of "r_a r"] assms(2-7)
    by (simp add: runs_def http_step_def http_label_def case_Version_def case_Cr_def Let_def
                  eval_nat_numeral)
  ultimately show ?thesis by (rule runs_append)
qed

definition print_request :: "bytes \<Rightarrow> bytes \<Rightarrow> byte \<Rightarrow> byte \<Rightarrow> (bytes \<times> bytes) list \<Rightarrow> bytes" where
  "print_request m u d1 d2 hs =
     request_line m u d1 d2 @ concat (map header_line hs) @ [ch_CR, ch_LF]"

text \<open>The request line leaves the parser in the state that the headers start from.\<close>

lemma runs_request_line:
  assumes "p = request_line m u d1 d2 @ post" "request_line_ok m u d1 d2"
  shows "\<exists>r. runs al p (InitHttpMessage kHttpRequest) (request_line m u d1 d2) r \<and>
    r_t r = kHttpStateLf1 \<and> r_i r = length (request_line m u d1 d2) \<and> hdr_wf r \<and>
    hdr_abs p r = (Map.empty, []) \<and> r_method r = GetHttpMethod (Buf m) \<and>
    slice_of p (r_xmethod r) = m \<and> slice_of p (r_uri r) = u \<and> r_version r = digits2 d1 d2"
proof -
  have ok: "m \<noteq> []" "\<forall>c \<in> set m. kHttpToken c \<noteq> 0" "u \<noteq> []" "\<forall>c \<in> set u. uri_byte c"
    "isdigit d1" "isdigit d2" using assms(2) by (auto simp: request_line_ok_def)
  let ?r0 = "InitHttpMessage kHttpRequest"
  let ?r1 = "?r0\<lparr>r_method := GetHttpMethod (Buf (slice_of p (mk_slice 0 (length m)))),
        r_xmethod := mk_slice 0 (length m), r_a := length m + 1, r_t := kHttpStateUri,
        r_i := length m + 1\<rparr>"
  let ?r2 = "?r1\<lparr>r_uri := mk_slice (length m + 1) (length m + 1 + length u),
        r_a := length m + 1 + length u + 1, r_t := kHttpStateVersion,
        r_i := length m + 1 + length u + 1\<rparr>"
  let ?r3 = "?r2\<lparr>r_version := digits2 d1 d2, r_t := kHttpStateLf1, r_i := r_i ?r2 + 10\<rparr>"
  have A: "runs al p ?r0 (m @ [ch_SP]) ?r1" using ok by (intro runs_method)
  have B: "runs al p ?r1 (u @ [ch_SP]) ?r2"
    using runs_uri [OF ok(3,4), of ?r1] by simp
  have C: "runs al p ?r2 (version_bytes d1 d2 @ [ch_CR, ch_LF]) ?r3"
    by (rule runs_version [where pre = "m @ [ch_SP] @ u @ [ch_SP]" and post = post])
       (use ok assms(1) in \<open>simp_all add: request_line_def InitHttpMessage_def\<close>)
  have "runs al p ?r0 (request_line m u d1 d2) ?r3"
    using runs_append [OF A runs_append [OF B C]] by (simp add: request_line_def)
  moreover have "slice_of p (mk_slice 0 (length m)) = m"
    using slice_mid [of "[]" m] assms(1) by (simp add: request_line_def)
  moreover have "slice_of p (mk_slice (length m + 1) (length m + 1 + length u)) = u"
    using slice_mid [of "m @ [ch_SP]" u] assms(1) by (simp add: request_line_def)
  moreover have "hdr_abs p ?r3 = (Map.empty, [])" "hdr_wf ?r3"
    by (simp_all add: hdr_abs_def hdr_wf_def InitHttpMessage_def fun_eq_iff)
  moreover have "r_i ?r3 = length (request_line m u d1 d2)"
    by (simp add: request_line_def version_bytes_def str_def)
  ultimately show ?thesis by (intro exI [of _ ?r3]) simp
qed

lemma runs_end:
  assumes "runs al p r xs r'" "r_t r' = kHttpStateLf1" "r_i r' = length xs"
  shows "run_machine (http_step al p) r (xs @ [ch_CR, ch_LF] @ ys) =
    (Stop (r'\<lparr>r_t := kHttpStateLf2, r_i := length xs + 2\<rparr>, Inr (length xs + 2)), length xs + 2)"
  using assms
  by (simp add: runs_def run_machine_append http_step_def http_label_def case_Lf1_def case_Lf2_def)

text \<open>A verdict on the first bytes of the buffer is the verdict of the routine.\<close>

lemma ParseHttpMessage_Stop:
  assumes "fst (run_machine (http_step al (xs @ ys)) r xs) = Stop x" "r_i r = 0" "length xs \<le> LIMIT"
  shows "ParseHttpMessage al r (xs @ ys) (length (xs @ ys)) = x"
proof -
  let ?n = "min (length (xs @ ys)) LIMIT"
  have "take ?n (xs @ ys) = xs @ take (?n - length xs) ys" using assms(3) by (simp add: min_def)
  then have "fst (run_machine (http_step al (xs @ ys)) r (drop (r_i r) (take ?n (xs @ ys)))) = Stop x"
    using assms(1,2) by (auto simp: run_machine_append split: prod.splits)
  then show ?thesis
    using parse_loop_run [of r ?n "xs @ ys" al] assms(2) by (simp add: ParseHttpMessage_def)
qed

lemma parse_print_request:
  assumes "request_line_ok m u d1 d2" and "list_all header_ok hs"
    and "length (print_request m u d1 d2 hs) \<le> LIMIT"
    and "p = print_request m u d1 d2 hs @ rest"
  shows "\<exists>r. ParseHttpMessage (\<lambda>_. True) (InitHttpMessage kHttpRequest) p (length p) =
               (r, Inr (length (print_request m u d1 d2 hs))) \<and>
             r_method r = GetHttpMethod (Buf m) \<and> slice_of p (r_xmethod r) = m \<and>
             slice_of p (r_uri r) = u \<and> r_version r = digits2 d1 d2 \<and>
             hdr_abs p r = fold keep_header hs (Map.empty, [])"
proof -
  let ?al = "\<lambda>_::nat. True" and ?r0 = "InitHttpMessage kHttpRequest"
  let ?head = "request_line m u d1 d2" and ?lines = "concat (map header_line hs)"
  have p1: "p = ?head @ (?lines @ [ch_CR, ch_LF] @ rest)"
    using assms(4) by (simp add: print_request_def)
  obtain r1 where r1: "runs ?al p ?r0 ?head r1" "r_t r1 = kHttpStateLf1" "r_i r1 = length ?head"
      "hdr_wf r1" "hdr_abs p r1 = (Map.empty, [])" "r_method r1 = GetHttpMethod (Buf m)"
      "slice_of p (r_xmethod r1) = m" "slice_of p (r_uri r1) = u" "r_version r1 = digits2 d1 d2"
    using runs_request_line [OF p1 assms(1), of ?al] by blast
  obtain r2 where r2: "runs ?al p r1 ?lines r2" "r_t r2 = kHttpStateLf1"
      "r_i r2 = r_i r1 + length ?lines" "hdr_abs p r2 = fold keep_header hs (hdr_abs p r1)"
      "first_line r2 = first_line r1"
    using runs_headers [OF p1 r1(3,2,4) assms(2), of ?al] by blast
  let ?r3 = "r2\<lparr>r_t := kHttpStateLf2, r_i := length (?head @ ?lines) + 2\<rparr>"
  have "run_machine (http_step ?al p) ?r0 ((?head @ ?lines) @ [ch_CR, ch_LF] @ []) =
      (Stop (?r3, Inr (length (?head @ ?lines) + 2)), length (?head @ ?lines) + 2)"
    by (rule runs_end [OF runs_append [OF r1(1) r2(1)] r2(2)]) (simp add: r2(3) r1(3))
  then have "ParseHttpMessage ?al ?r0 p (length p) = (?r3, Inr (length (?head @ ?lines) + 2))"
    using ParseHttpMessage_Stop [of ?al "print_request m u d1 d2 hs" rest ?r0] assms(3,4)
    by (simp add: print_request_def InitHttpMessage_def)
  then show ?thesis
    using r1 r2 by (intro exI [of _ ?r3]) (simp add: print_request_def first_line_def)
qed


text \<open>(C1) Parsing what was printed: on a buffer that starts with a well-formed request of at most
  \<open>LIMIT\<close> bytes the parser returns the length of the request, finds method, URI and version, and its
  tables hold the headers as the abstract store does after the same sequence of headers.\<close>

theorem ParseHttpMessage_request:
  assumes "request_line_ok m u d1 d2" and "list_all header_ok hs"
    and "length (print_request m u d1 d2 hs) \<le> LIMIT"
    and "p = print_request m u d1 d2 hs @ rest"
  shows "\<exists>r. ParseHttpMessage (\<lambda>_. True) (InitHttpMessage kHttpRequest) p (length p) =
               (r, Inr (length (print_request m u d1 d2 hs))) \<and>
             r_method r = GetHttpMethod (Buf m) \<and> slice_of p (r_xmethod r) = m \<and>
             slice_of p (r_uri r) = u \<and> r_version r = digits2 d1 d2 \<and>
             hdr_abs p r = fold keep_header hs (Map.empty, [])"
  using assms by (rule parse_print_request)

theorem ParseHttpMessage_request_witness:
  "\<exists>r. ParseHttpMessage (\<lambda>_. True) (InitHttpMessage kHttpRequest)
         (print_request (str ''GET'') (str ''/'') 0x31 0x31 [(str ''Host'', str ''x'')] @ str ''hi'') 29 =
       (r, Inr 27) \<and> r_version r = 11"
proof -
  let ?q = "print_request (str ''GET'') (str ''/'') 0x31 0x31 [(str ''Host'', str ''x'')]"
  have len: "length ?q = 27"
    by (simp add: print_request_def request_line_def header_line_def version_bytes_def str_def)
  have ok: "request_line_ok (str ''GET'') (str ''/'') 0x31 0x31"
    "list_all header_ok [(str ''Host'', str ''x'')]"
    by (simp_all add: request_line_ok_def header_ok_def str_def kHttpToken_eq uri_byte_def
                      iscontrol_def value_byte_def isdigit_def)
  have "length (?q @ str ''hi'') = 29" unfolding length_append len by (simp add: str_def)
  then show ?thesis
    using ParseHttpMessage_request [OF ok, of "?q @ str ''hi''" "str ''hi''"]
    by (auto simp: len LIMIT_def)
qed

subsection \<open>Folding repeated headers\<close>

fun join_comma :: "bytes list \<Rightarrow> bytes" where
  "join_comma [] = []"
| "join_comma [v] = v"
| "join_comma (v # w # vs) = v @ str '', '' @ join_comma (w # vs)"

text \<open>The values that a list of headers gives to a known header.\<close>

definition header_values :: "nat \<Rightarrow> (bytes \<times> bytes) list \<Rightarrow> bytes list" where
  "header_values h hs = map snd (filter (\<lambda>(k, v). GetHttpHeader k = Some h) hs)"

definition own_value :: "nat \<Rightarrow> hstore \<Rightarrow> bytes list" where
  "own_value h st = (case fst st h of None \<Rightarrow> [] | Some v \<Rightarrow> [v])"

lemma header_values_append [simp]:
  "header_values h (xs @ ys) = header_values h xs @ header_values h ys"
  by (simp add: header_values_def)

lemma header_values_simps [simp]:
  "header_values h [] = []"
  "header_values h ((k, v) # hs) = (if GetHttpHeader k = Some h then v # header_values h hs else header_values h hs)"
  by (simp_all add: header_values_def)

text \<open>Nothing is lost: own slice and spilled values together are all values, in order.\<close>

lemma keep_header_repeatable:
  assumes "kHttpRepeatable h" "fst st h = None \<longrightarrow> header_values h (snd st) = []"
  shows "own_value h (fold keep_header hs st) @ header_values h (snd (fold keep_header hs st)) =
           own_value h st @ header_values h (snd st) @ header_values h hs \<and>
         (fst (fold keep_header hs st) h = None \<longrightarrow> header_values h (snd (fold keep_header hs st)) = [])"
  using assms(2)
proof (induction hs arbitrary: st)
  case (Cons kv hs)
  obtain k v where kv: "kv = (k, v)" by (cases kv)
  obtain m xs where st: "st = (m, xs)" by (cases st)
  let ?st = "keep_header kv st"
  have n: "fst ?st h = None \<longrightarrow> header_values h (snd ?st) = []"
    using Cons.prems assms(1) by (auto simp: kv st split: option.splits if_splits)
  have "own_value h ?st @ header_values h (snd ?st) =
      own_value h st @ header_values h (snd st) @ header_values h [kv]"
    using Cons.prems assms(1)
    by (auto simp: kv st own_value_def split: option.splits if_splits)
  with Cons.IH [OF n] show ?case by (simp add: kv)
qed simp

lemma keep_header_single:
  assumes "\<not> kHttpRepeatable h"
  shows "fst (fold keep_header hs (m, xs)) h =
           (if header_values h hs = [] then m h else Some (last (header_values h hs)))"
  using assms
proof (induction hs arbitrary: m xs)
  case (Cons kv hs)
  obtain k v where kv: "kv = (k, v)" by (cases kv)
  obtain m' xs' where st: "keep_header kv (m, xs) = (m', xs')" by (cases "keep_header kv (m, xs)")
  have "m' h = (if GetHttpHeader k = Some h then Some v else m h)"
    using st Cons.prems by (auto simp: kv split: option.splits if_splits)
  with Cons st show ?case by (auto simp: kv)
qed simp

lemma fold_loop_values:
  "fold_loop (\<lambda>_. True) b h p xs =
     Some (concat (p # map (\<lambda>v. str '', '' @ v)
       (header_values h (map (\<lambda>x. (slice_of b (h_k x), slice_of b (h_v x))) xs))))"
  by (induction xs arbitrary: p) (auto simp: Let_def)

lemma join_comma_Cons: "join_comma (v # vs) = concat (v # map (\<lambda>v. str '', '' @ v) vs)"
  by (induction vs arbitrary: v) auto

lemma FoldHeader_join:
  assumes "hdr_abs p r = st" "length (r_headers r) = kHttpHeadersMax" "h < kHttpHeadersMax"
    "sl_a (r_headers r ! h) = 0 \<Longrightarrow> slice_of p (r_headers r ! h) = []"
    "fst st h = None \<Longrightarrow> header_values h (snd st) = []"
  shows "FoldHeader (\<lambda>_. True) r p h = Some (join_comma (own_value h st @ header_values h (snd st)))"
proof -
  have f: "FoldHeader (\<lambda>_. True) r p h =
      Some (join_comma (slice_of p (r_headers r ! h) # header_values h (snd st)))"
    using assms(1) by (auto simp: FoldHeader_def Let_def fold_loop_values join_comma_Cons hdr_abs_def)
  show ?thesis
  proof (cases "sl_a (r_headers r ! h) = 0")
    case True
    then have "fst st h = None" using assms(1) by (auto simp: hdr_abs_def)
    with f True assms(4,5) show ?thesis by (simp add: own_value_def)
  next
    case False
    then have "fst st h = Some (slice_of p (r_headers r ! h))"
      using assms(1-3) by (auto simp: hdr_abs_def)
    with f show ?thesis by (simp add: own_value_def)
  qed
qed

lemma HeaderHas_abs:
  assumes "hdr_abs p r = st" "length (r_headers r) = kHttpHeadersMax" "h < kHttpHeadersMax"
  shows "HeaderHas r p h (Buf s) \<longleftrightarrow>
    (\<exists>v \<in> set (own_value h st @ (if kHttpRepeatable h \<and> fst st h \<noteq> None
                                     then header_values h (snd st) else [])). sublist s v)"
  using assms(2,3)
  by (auto simp: assms(1) [symmetric] HeaderHas_def hdr_abs_def own_value_def header_values_def Let_def
                 memmem_sublist [symmetric] list_ex_iff)

subsection \<open>Every slice is in bounds and free of control codes\<close>

text \<open>
  \<open>field_ok P p n s\<close>: the slice lies in the first \<open>n\<close> bytes and all its bytes satisfy \<open>P\<close>.
\<close>

definition field_ok :: "(byte \<Rightarrow> bool) \<Rightarrow> bytes \<Rightarrow> nat \<Rightarrow> HttpSlice \<Rightarrow> bool" where
  "field_ok P p n s \<longleftrightarrow>
     sl_a s \<le> sl_b s \<and> sl_b s \<le> n \<and> (\<forall>j. sl_a s \<le> j \<longrightarrow> j < sl_b s \<longrightarrow> P (p ! j))"

abbreviation (input) token_byte :: "byte \<Rightarrow> bool" where
  "token_byte c \<equiv> kHttpToken c \<noteq> 0"

lemma field_ok_mono: "field_ok P p n s \<Longrightarrow> n \<le> n' \<Longrightarrow> field_ok P p n' s"
  by (simp add: field_ok_def)

lemma field_ok_extend:
  "field_ok P p n (mk_slice a n) \<Longrightarrow> P (p ! n) \<Longrightarrow> field_ok P p (Suc n) (mk_slice a (Suc n))"
  by (auto simp: field_ok_def less_Suc_eq)

lemma field_ok_empty [simp]: "a \<le> n \<Longrightarrow> field_ok P p n (mk_slice a a)"
  by (simp add: field_ok_def)

lemma field_ok_slice:
  assumes "field_ok P p n s" "n \<le> length p" shows "\<forall>c \<in> set (slice_of p s). P c"
proof
  fix c assume "c \<in> set (slice_of p s)"
  then obtain k where "k < sl_b s - sl_a s" "sl_a s + k < length p" "c = p ! (sl_a s + k)"
    by (auto simp: slice_of_def in_set_conv_nth)
  with assms(1) show "P c" by (simp add: field_ok_def)
qed

lemma trim_end_bounds: "a \<le> i \<Longrightarrow> a \<le> trim_end p a i \<and> trim_end p a i \<le> i"
  by (induction p a i rule: trim_end.induct) auto

definition header_slice_ok :: "bytes \<Rightarrow> nat \<Rightarrow> HttpSlice \<Rightarrow> bool" where
  "header_slice_ok p n s \<longleftrightarrow> field_ok value_byte p n s \<and> (sl_a s = 0 \<longrightarrow> sl_b s = 0)"

definition stored_ok :: "bytes \<Rightarrow> nat \<Rightarrow> HttpMessage \<Rightarrow> bool" where
  "stored_ok p n r \<longleftrightarrow>
     field_ok token_byte p n (r_xmethod r) \<and>
     field_ok value_byte p n (r_uri r) \<and>
     field_ok value_byte p n (r_message r) \<and>
     list_all (header_slice_ok p n) (r_headers r) \<and>
     list_all (\<lambda>x. field_ok token_byte p n (h_k x) \<and> field_ok value_byte p n (h_v x))
       (xh_p (r_xheaders r))"

definition partial_ok :: "bytes \<Rightarrow> HttpMessage \<Rightarrow> bool" where
  "partial_ok p r \<longleftrightarrow>
     (case r_t r of
        kHttpStateStart \<Rightarrow> True
      | kHttpStateMethod \<Rightarrow> 0 < r_i r \<and> field_ok token_byte p (r_i r) (mk_slice (r_a r) (r_i r))
      | kHttpStateUri \<Rightarrow> 0 < r_i r \<and> field_ok value_byte p (r_i r) (mk_slice (r_a r) (r_i r))
      | kHttpStateMessage \<Rightarrow> 0 < r_i r \<and> field_ok value_byte p (r_i r) (mk_slice (r_a r) (r_i r))
      | kHttpStateName \<Rightarrow> 0 < r_i r \<and> field_ok token_byte p (r_i r) (mk_slice (sl_a (r_k r)) (r_i r))
      | kHttpStateColon \<Rightarrow> 0 < r_i r \<and> field_ok token_byte p (r_i r) (r_k r)
      | kHttpStateValue \<Rightarrow> 0 < r_a r \<and> field_ok token_byte p (r_i r) (r_k r) \<and>
                           field_ok value_byte p (r_i r) (mk_slice (r_a r) (r_i r))
      | _ \<Rightarrow> 0 < r_i r)"

definition parse_inv :: "bytes \<Rightarrow> HttpMessage \<Rightarrow> bool" where
  "parse_inv p r \<longleftrightarrow> hdr_wf r \<and> stored_ok p (r_i r) r \<and> partial_ok p r"

lemma parse_inv_Init: "parse_inv p (InitHttpMessage type)"
  by (simp add: parse_inv_def hdr_wf_def stored_ok_def partial_ok_def InitHttpMessage_def
                header_slice_ok_def list_all_iff)

lemma list_all_update: "list_all P xs \<Longrightarrow> P y \<Longrightarrow> list_all P (xs[i := y])"
  by (auto simp: list_all_iff dest!: set_update_subset_insert [THEN subsetD])

lemma stored_ok_Suc: "stored_ok p n r \<Longrightarrow> stored_ok p (Suc n) r"
  by (auto simp: stored_ok_def header_slice_ok_def list_all_iff intro: field_ok_mono)

lemma stored_ok_update [simp]:
  "stored_ok p n (r\<lparr>r_i := i\<rparr>) = stored_ok p n r"
  "stored_ok p n (r\<lparr>r_t := t\<rparr>) = stored_ok p n r" "stored_ok p n (r\<lparr>r_a := a\<rparr>) = stored_ok p n r"
  "stored_ok p n (r\<lparr>r_k := k\<rparr>) = stored_ok p n r" "stored_ok p n (r\<lparr>r_version := v\<rparr>) = stored_ok p n r"
  "stored_ok p n (r\<lparr>r_status := st\<rparr>) = stored_ok p n r" "stored_ok p n (r\<lparr>r_method := m\<rparr>) = stored_ok p n r"
  by (simp_all add: stored_ok_def)

lemma stored_ok_slices:
  "stored_ok p n r \<Longrightarrow> field_ok token_byte p n s \<Longrightarrow> stored_ok p n (r\<lparr>r_xmethod := s\<rparr>)"
  "stored_ok p n r \<Longrightarrow> field_ok value_byte p n s \<Longrightarrow> stored_ok p n (r\<lparr>r_uri := s\<rparr>)"
  "stored_ok p n r \<Longrightarrow> field_ok value_byte p n s \<Longrightarrow> stored_ok p n (r\<lparr>r_message := s\<rparr>)"
  by (simp_all add: stored_ok_def)

lemma hdr_wf_update [simp]:
  "hdr_wf (r\<lparr>r_version := v\<rparr>) = hdr_wf r" "hdr_wf (r\<lparr>r_status := st\<rparr>) = hdr_wf r"
  "hdr_wf (r\<lparr>r_method := m\<rparr>) = hdr_wf r" "hdr_wf (r\<lparr>r_uri := s\<rparr>) = hdr_wf r"
  "hdr_wf (r\<lparr>r_message := s\<rparr>) = hdr_wf r" "hdr_wf (r\<lparr>r_xmethod := s\<rparr>) = hdr_wf r"
  by (simp_all add: hdr_wf_def)

lemma store_header_ok:
  assumes "hdr_wf r" "stored_ok p (r_i r) r" "0 < r_a r" "field_ok token_byte p (r_i r) (r_k r)"
    "field_ok value_byte p (r_i r) (mk_slice (r_a r) (r_i r))"
  shows "hdr_wf (store_header al p r)" "stored_ok p (r_i r) (store_header al p r)"
proof -
  let ?v = "mk_slice (r_a r) (trim_end p (r_a r) (r_i r))"
  have v: "field_ok value_byte p (r_i r) ?v"
    using assms(5) trim_end_bounds [of "r_a r" "r_i r" p] by (auto simp: field_ok_def)
  then have "header_slice_ok p (r_i r) ?v" using assms(3) by (simp add: header_slice_ok_def)
  then have h: "list_all (header_slice_ok p (r_i r)) ((r_headers r)[k := ?v])" for k
    using assms(2) by (simp add: stored_ok_def list_all_update)
  have x: "list_all (\<lambda>x. field_ok token_byte p (r_i r) (h_k x) \<and> field_ok value_byte p (r_i r) (h_v x))
      (xh_p (push_xheader \<lparr>h_k = r_k r, h_v = ?v\<rparr> (grow_xheaders al (r_xheaders r))))"
    using assms(2,4) v by (simp add: stored_ok_def push_xheader_def grow_xheaders_def Let_def)
  show "stored_ok p (r_i r) (store_header al p r)"
    using h x assms(2) by (auto simp: store_header_def stored_ok_def Let_def split: option.split)
  show "hdr_wf (store_header al p r)"
    using assms(1)
    by (auto simp: store_header_def hdr_wf_def push_xheader_def grow_xheaders_def Let_def
             split: option.split)
qed

lemma token_value: "kHttpToken c \<noteq> 0 \<Longrightarrow> value_byte c"
  by (auto simp: kHttpToken_eq value_byte_def word_less_nat_alt word_le_nat_alt)

lemma uri_value: "\<not> iscontrol c \<Longrightarrow> value_byte c"
  by (auto simp: iscontrol_def value_byte_def)

lemma field_ok_token_value: "field_ok token_byte p n s \<Longrightarrow> field_ok value_byte p n s"
  using token_value by (auto simp: field_ok_def)

definition result_ok :: "bytes \<Rightarrow> HttpMessage \<times> (errno + nat) \<Rightarrow> bool" where
  "result_ok p rx \<longleftrightarrow> hdr_wf (fst rx) \<and> stored_ok p (r_i (fst rx)) (fst rx) \<and> r_i (fst rx) \<le> length p"

definition outcome_ok :: "bytes \<Rightarrow> ctl \<Rightarrow> bool" where
  "outcome_ok p x = (case x of Next r \<Rightarrow> parse_inv p r | Stop y \<Rightarrow> result_ok p y)"

text \<open>One lemma per label.\<close>

lemma field_ok_Suc:
  "field_ok P p n s \<Longrightarrow> field_ok P p (Suc n) s"
  "field_ok P p n (mk_slice a n) \<Longrightarrow> P (p ! n) \<Longrightarrow> field_ok P p (Suc n) (mk_slice a (Suc n))"
  "P (p ! n) \<Longrightarrow> field_ok P p (Suc n) (mk_slice n (Suc n))"
  by (auto simp: field_ok_def less_Suc_eq)

lemmas label_simps =
  http_step_def http_label_def outcome_ok_def parse_inv_def result_ok_def partial_ok_def

lemma step_Start:
  "r_t r = kHttpStateStart \<Longrightarrow> parse_inv p r \<Longrightarrow> r_i r < length p \<Longrightarrow>
   outcome_ok p (http_step al p r (p ! r_i r))"
  by (auto simp: label_simps case_Start_def field_ok_Suc intro: stored_ok_Suc)

lemma stored_ok_xmethod:
  "stored_ok p n r \<Longrightarrow>
   stored_ok p (Suc n) (r\<lparr>r_method := m, r_xmethod := s\<rparr>) \<longleftrightarrow> field_ok token_byte p (Suc n) s"
  using stored_ok_Suc [of p n r] by (simp add: stored_ok_def)

lemma step_Method:
  "r_t r = kHttpStateMethod \<Longrightarrow> parse_inv p r \<Longrightarrow> r_i r < length p \<Longrightarrow>
   outcome_ok p (http_step al p r (p ! r_i r))"
  by (auto simp: label_simps case_Method_def field_ok_Suc stored_ok_xmethod intro: stored_ok_Suc)

lemma step_Uri:
  "r_t r = kHttpStateUri \<Longrightarrow> parse_inv p r \<Longrightarrow> r_i r < length p \<Longrightarrow>
   outcome_ok p (http_step al p r (p ! r_i r))"
  by (auto simp: label_simps case_Uri_def Let_def field_ok_Suc uri_value
           intro: stored_ok_Suc stored_ok_slices)

lemma step_Version:
  "r_t r = kHttpStateVersion \<Longrightarrow> parse_inv p r \<Longrightarrow> r_i r < length p \<Longrightarrow>
   outcome_ok p (http_step al p r (p ! r_i r))"
  by (auto simp: label_simps case_Version_def Let_def intro: stored_ok_Suc)

lemma step_Status:
  "r_t r = kHttpStateStatus \<Longrightarrow> parse_inv p r \<Longrightarrow> r_i r < length p \<Longrightarrow>
   outcome_ok p (http_step al p r (p ! r_i r))"
  by (auto simp: label_simps case_Status_def Let_def intro: stored_ok_Suc)

lemma step_Message:
  "r_t r = kHttpStateMessage \<Longrightarrow> parse_inv p r \<Longrightarrow> r_i r < length p \<Longrightarrow>
   outcome_ok p (http_step al p r (p ! r_i r))"
  by (auto simp: label_simps case_Message_def field_ok_Suc uri_value
           intro: stored_ok_Suc stored_ok_slices)

lemma step_Cr_Lf:
  "r_t r \<in> {kHttpStateCr, kHttpStateLf1, kHttpStateLf2} \<Longrightarrow> parse_inv p r \<Longrightarrow> r_i r < length p \<Longrightarrow>
   outcome_ok p (http_step al p r (p ! r_i r))"
  by (auto simp: label_simps case_Cr_def case_Lf1_def case_Lf2_def field_ok_Suc intro: stored_ok_Suc)

lemma step_Name:
  "r_t r = kHttpStateName \<Longrightarrow> parse_inv p r \<Longrightarrow> r_i r < length p \<Longrightarrow>
   outcome_ok p (http_step al p r (p ! r_i r))"
  by (auto simp: label_simps case_Name_def field_ok_Suc intro: stored_ok_Suc)
     (auto simp: field_ok_def)

lemma case_Value_eq:
  "case_Value al p r c =
     (if c = ch_CR \<or> c = ch_LF then
        Leave (Next ((store_header al p r)\<lparr>r_t := (if c = ch_CR then kHttpStateCr else kHttpStateLf1)\<rparr>))
      else if \<not> value_byte c then Leave (ebadmsg r)
      else Again r)"
  by (simp add: case_Value_def value_byte_def)

lemma step_Value:
  assumes "r_t r = kHttpStateValue" "parse_inv p r" "r_i r < length p"
  shows "outcome_ok p (http_step al p r (p ! r_i r))"
proof -
  from assms(1,2) have inv: "hdr_wf r" "stored_ok p (r_i r) r" "0 < r_a r"
      "field_ok token_byte p (r_i r) (r_k r)" "field_ok value_byte p (r_i r) (mk_slice (r_a r) (r_i r))"
    by (auto simp: parse_inv_def partial_ok_def)
  show ?thesis
    using assms inv store_header_ok [OF inv, of al]
    by (auto simp: label_simps case_Value_eq field_ok_Suc intro: stored_ok_Suc)
qed

lemma step_Colon:
  assumes "r_t r = kHttpStateColon" "parse_inv p r" "r_i r < length p"
  shows "outcome_ok p (http_step al p r (p ! r_i r))"
proof (cases "p ! r_i r = ch_SP \<or> p ! r_i r = ch_HT")
  case True
  with assms show ?thesis by (auto simp: label_simps field_ok_Suc intro: stored_ok_Suc)
next
  case False
  have "http_step al p r (p ! r_i r) = http_step al p (enter_value r) (p ! r_i (enter_value r))"
    using False assms(1) by (simp add: http_step_def http_label_def)
  moreover have "parse_inv p (enter_value r)"
    using assms(1,2) by (simp add: parse_inv_def partial_ok_def)
  ultimately show ?thesis using step_Value [of "enter_value r" p al] assms(3) by simp
qed

lemma step_inv:
  assumes "parse_inv p r" "r_i r < length p"
  shows "outcome_ok p (http_step al p r (p ! r_i r))"
  using assms
  by (cases "r_t r")
     (auto intro: step_Start step_Method step_Uri step_Version step_Status step_Message step_Cr_Lf
                  step_Name step_Value step_Colon)

interpretation http: indexed_parser "http_step al p" r_i p "parse_inv p" "result_ok p" for al p
proof
  fix s s'
  assume "parse_inv p s" "r_i s < length p" "http_step al p s (p ! r_i s) = Next s'"
  then show "parse_inv p s' \<and> r_i s' = Suc (r_i s)"
    using step_inv [of p s al] http_step_i by (force simp: outcome_ok_def)
next
  fix s x
  assume "parse_inv p s" "r_i s < length p" "http_step al p s (p ! r_i s) = Stop x"
  then show "result_ok p x" using step_inv [of p s al] by (simp add: outcome_ok_def)
qed

lemma stored_ok_mono: "stored_ok p n r \<Longrightarrow> n \<le> n' \<Longrightarrow> stored_ok p n' r"
  by (auto simp: stored_ok_def header_slice_ok_def list_all_iff intro: field_ok_mono)

lemma parse_loop_result_ok:
  assumes "parse_inv p r" "r_i r \<le> n" "n \<le> length p" "parse_loop al p n r = (r', x)"
  shows "hdr_wf r'" "stored_ok p (length p) r'"
proof -
  have "hdr_wf r' \<and> (\<exists>k \<le> length p. stored_ok p k r')"
    using parse_loop_run [OF assms(2,3), of al] http.run_inv [OF assms(1-3), of al] assms(3,4)
    by (auto simp: parse_inv_def result_ok_def split: outcome.splits)
  then show "hdr_wf r'" "stored_ok p (length p) r'" by (auto intro: stored_ok_mono)
qed


lemma known_header:
  "0 \<notin> set s \<Longrightarrow> x \<noteq> [] \<Longrightarrow> map kToLower s = map kToLower (str x) \<Longrightarrow>
   (x, k) \<in> set HttpHeader_wordlist \<Longrightarrow> GetHttpHeader s = Some k"
  using header_hash.lookup_finds [of s "(x, k)"] by (simp add: GetHttpHeader_def)


definition http_fields :: "HttpMessage \<Rightarrow> HttpSlice list" where
  "http_fields r = [r_xmethod r, r_uri r, r_message r] @ r_headers r @
     map h_k (xh_p (r_xheaders r)) @ map h_v (xh_p (r_xheaders r))"

lemma stored_ok_fields: "stored_ok p n r \<Longrightarrow> s \<in> set (http_fields r) \<Longrightarrow> field_ok value_byte p n s"
  by (auto simp: stored_ok_def http_fields_def header_slice_ok_def list_all_iff
           intro: field_ok_token_value)

text \<open>(C4) The guarantee of the parser's comment: whatever a call on a fresh message returns, and
  whatever memory is available, every slice it has stored lies inside the buffer and contains no C0 or
  C1 control code except tab.\<close>

theorem ParseHttpMessage_fields_clean:
  assumes "ParseHttpMessage al (InitHttpMessage type) p n = (r, x)" and "n \<le> length p"
    and "s \<in> set (http_fields r)"
  shows "sl_a s \<le> sl_b s \<and> sl_b s \<le> length p \<and>
         (\<forall>c \<in> set (slice_of p s). c = ch_HT \<or> \<not> (c < 0x20 \<or> 0x7F \<le> c \<and> c < 0xA0))"
proof -
  have "stored_ok p (length p) r"
    using parse_loop_result_ok(2) [OF parse_inv_Init _ _ assms(1) [unfolded ParseHttpMessage_def]]
      assms(2) by (simp add: InitHttpMessage_def)
  then have f: "field_ok value_byte p (length p) s" using assms(3) by (rule stored_ok_fields)
  with field_ok_slice [OF f] show ?thesis by (auto simp: field_ok_def value_byte_def)
qed

text \<open>The first six bytes of a request, as the witness reads them.\<close>

definition request_start :: bytes where
  "request_start = [71, 69, 84, 32, 47, 32]"

lemma parse_request_start:
  "ParseHttpMessage (\<lambda>_. True) (InitHttpMessage kHttpRequest) request_start 6 =
     ((InitHttpMessage kHttpRequest)\<lparr>r_method := GetHttpMethod (Buf [71, 69, 84]),
        r_xmethod := mk_slice 0 3, r_uri := mk_slice 4 5,
        r_a := 6, r_t := kHttpStateVersion, r_i := 6\<rparr>, Inr 0)"
  unfolding ParseHttpMessage_def request_start_def LIMIT_def InitHttpMessage_def
  by (subst parse_loop.simps, simp add: http_switch_def case_Start_def kHttpToken_eq,
      subst parse_loop.simps, simp add: http_switch_def case_Method_def kHttpToken_eq slice_of_def,
      subst parse_loop.simps, simp add: http_switch_def case_Uri_def iscontrol_def,
      subst parse_loop.simps, simp add: LIMIT_def)

theorem ParseHttpMessage_fields_clean_witness:
  "mk_slice 4 5 \<in> set (http_fields (fst (ParseHttpMessage (\<lambda>_. True) (InitHttpMessage kHttpRequest) request_start 6))) \<and>
   slice_of request_start (mk_slice 4 5) = [0x2F] \<and>
   list_all (\<lambda>c. c = ch_HT \<or> \<not> (c < 0x20 \<or> 0x7F \<le> c \<and> c < 0xA0)) (slice_of request_start (mk_slice 4 5))"
proof -
  have i: "mk_slice 4 5 \<in> set (http_fields (fst (ParseHttpMessage (\<lambda>_. True) (InitHttpMessage kHttpRequest) request_start 6)))"
    by (simp add: parse_request_start http_fields_def)
  have n: "6 \<le> length request_start" by (simp add: request_start_def)
  show ?thesis
    using i ParseHttpMessage_fields_clean [OF surjective_pairing n i]
    by (simp add: list_all_iff) (simp add: request_start_def slice_of_def)
qed

subsection \<open>Fragments\<close>

text \<open>
  A label with a loop of its own leaves \<open>r_i\<close> at \<open>n + 1\<close> when the input ends inside it, and the next
  call then starts one byte too late.  The byte that is skipped may be the one that ends the token.
\<close>

definition request_GET :: bytes where
  "request_GET = print_request (str ''GET'') (str ''/'') 0x31 0x31 []"

lemma request_GET_eq:
  "request_GET = [71, 69, 84, 32, 47, 32, 72, 84, 84, 80, 47, 49, 46, 49, 13, 10, 13, 10]"
  by (simp add: request_GET_def print_request_def request_line_def version_bytes_def str_def)

lemma parse_GET_prefix:
  "ParseHttpMessage (\<lambda>_. True) (InitHttpMessage kHttpRequest) request_GET 3 =
     ((InitHttpMessage kHttpRequest)\<lparr>r_t := kHttpStateMethod, r_i := 4\<rparr>, Inr 0)"
  unfolding ParseHttpMessage_def request_GET_eq LIMIT_def InitHttpMessage_def
  by (subst parse_loop.simps, simp add: http_switch_def case_Start_def kHttpToken_eq,
      subst parse_loop.simps, simp add: http_switch_def case_Method_def kHttpToken_eq,
      subst parse_loop.simps, simp add: LIMIT_def)

lemma parse_GET_resumed:
  "ParseHttpMessage (\<lambda>_. True)
     ((InitHttpMessage kHttpRequest)\<lparr>r_t := kHttpStateMethod, r_i := 4\<rparr>) request_GET 18 =
   ((InitHttpMessage kHttpRequest)\<lparr>r_t := kHttpStateMethod, r_i := 4\<rparr>, Inl EBADMSG)"
  unfolding ParseHttpMessage_def request_GET_eq LIMIT_def InitHttpMessage_def
  by (subst parse_loop.simps, simp add: http_switch_def case_Method_def kHttpToken_eq)


end
