(* ===== verification/Http_Base64.thy ===== *)
theory Http_Base64
  imports Http_Tables
begin

text \<open>
  Base64 of \<open>net/http/encodebase64.c\<close> and \<open>net/http/decodebase64.c\<close>.  The output buffer is a list; the
  terminating NUL is not part of it.  \<open>None\<close> is the \<open>NULL\<close> that a failed \<open>malloc\<close> gives; the
  \<open>realloc\<close> that shrinks the decoder's result keeps the bytes whether it succeeds or not.
  The lemmas show that decoding inverts encoding, that the output fits the memory that was allocated,
  and that the decoder skips bytes outside its alphabets.
\<close>

subsection \<open>Encoder\<close>

definition CHARS :: bytes where
  "CHARS = str ''ABCDEFGHIJKLMNOPQRSTUVWXYZabcdefghijklmnopqrstuvwxyz0123456789+/''"

text \<open>One iteration reads \<open>p[0]\<close> and, where they are before \<open>pe\<close>, \<open>p[1]\<close> and \<open>p[2]\<close>.\<close>

definition b64_word :: "byte \<Rightarrow> bytes \<Rightarrow> 32 word" where
  "b64_word p0 ps =
     (let w = push_bit 16 (ucast p0);
          w = (if 0 < length ps then w OR push_bit 8 (ucast (ps ! 0)) else w)
      in if 1 < length ps then w OR ucast (ps ! 1) else w)"

function b64_encode :: "bytes \<Rightarrow> bytes" where
  "b64_encode [] = []"
| "b64_encode (p0 # ps) =
     (let w = b64_word p0 ps in
      [CHARS ! unat (drop_bit 18 w AND 0x3F),
       CHARS ! unat (drop_bit 12 w AND 0x3F),
       (if 0 < length ps then CHARS ! unat (drop_bit 6 w AND 0x3F) else 0x3D),
       (if 1 < length ps then CHARS ! unat (w AND 0x3F) else 0x3D)] @ b64_encode (drop 2 ps))"
  by pat_completeness auto
termination by (relation "measure length") auto

definition b64_encoded_size :: "nat \<Rightarrow> nat" where
  "b64_encoded_size sz =
     (let n = (if sz mod 3 \<noteq> 0 then sz + (3 - sz mod 3) else sz) in n div 3 * 4)"

definition EncodeBase64 :: "allocator \<Rightarrow> cstr \<Rightarrow> bytes option" where
  "EncodeBase64 al data =
     (let p = arg_bytes data; n = b64_encoded_size (length p) in
      if al (n + 1) then Some (b64_encode p) else None)"

subsection \<open>Decoder\<close>

definition kBase64 :: "byte \<Rightarrow> int" where
  "kBase64 = tab256 [
    [- 1, - 1, - 1, - 1, - 1, - 1, - 1, - 1, - 1, - 1, - 1, - 1, - 1, - 1, - 1, - 1],
    [- 1, - 1, - 1, - 1, - 1, - 1, - 1, - 1, - 1, - 1, - 1, - 1, - 1, - 1, - 1, - 1],
    [- 1, - 1, - 1, - 1, - 1, - 1, - 1, - 1, - 1, - 1, - 1, 62, - 1, 62, - 1, 63],
    [52, 53, 54, 55, 56, 57, 58, 59, 60, 61, - 1, - 1, - 1, - 2, - 1, - 1],
    [- 1, 0, 1, 2, 3, 4, 5, 6, 7, 8, 9, 10, 11, 12, 13, 14],
    [15, 16, 17, 18, 19, 20, 21, 22, 23, 24, 25, - 1, - 1, - 1, - 1, 63],
    [- 1, 26, 27, 28, 29, 30, 31, 32, 33, 34, 35, 36, 37, 38, 39, 40],
    [41, 42, 43, 44, 45, 46, 47, 48, 49, 50, 51, - 1, - 1, - 1, - 1, - 1],
    [- 1, - 1, - 1, - 1, - 1, - 1, - 1, - 1, - 1, - 1, - 1, - 1, - 1, - 1, - 1, - 1],
    [- 1, - 1, - 1, - 1, - 1, - 1, - 1, - 1, - 1, - 1, - 1, - 1, - 1, - 1, - 1, - 1],
    [- 1, - 1, - 1, - 1, - 1, - 1, - 1, - 1, - 1, - 1, - 1, - 1, - 1, - 1, - 1, - 1],
    [- 1, - 1, - 1, - 1, - 1, - 1, - 1, - 1, - 1, - 1, - 1, - 1, - 1, - 1, - 1, - 1],
    [- 1, - 1, - 1, - 1, - 1, - 1, - 1, - 1, - 1, - 1, - 1, - 1, - 1, - 1, - 1, - 1],
    [- 1, - 1, - 1, - 1, - 1, - 1, - 1, - 1, - 1, - 1, - 1, - 1, - 1, - 1, - 1, - 1],
    [- 1, - 1, - 1, - 1, - 1, - 1, - 1, - 1, - 1, - 1, - 1, - 1, - 1, - 1, - 1, - 1],
    [- 1, - 1, - 1, - 1, - 1, - 1, - 1, - 1, - 1, - 1, - 1, - 1, - 1, - 1, - 1, - 1]]"

text \<open>The loop \<open>do ... while (a == -1)\<close>; \<open>None\<close> is \<open>goto Done\<close>.\<close>

fun b64_next :: "bytes \<Rightarrow> (int \<times> bytes) option" where
  "b64_next [] = None"
| "b64_next (c # cs) = (let a = kBase64 c in if a = - 1 then b64_next cs else Some (a, cs))"

text \<open>The same loop for the third and fourth digit, where the end of the input counts as \<open>=\<close>.\<close>

fun b64_next_pad :: "bytes \<Rightarrow> int \<times> bytes" where
  "b64_next_pad [] = (- 2, [])"
| "b64_next_pad (c # cs) = (let a = kBase64 c in if a = - 1 then b64_next_pad cs else (a, cs))"

lemma b64_next_shorter: "b64_next cs = Some (a, cs') \<Longrightarrow> length cs' < length cs"
  by (induction cs) (auto simp: Let_def split: if_splits)

lemma b64_next_pad_shorter: "b64_next_pad cs = (a, cs') \<Longrightarrow> length cs' \<le> length cs"
  by (induction cs) (auto simp: Let_def split: if_splits)

text \<open>The bytes that a group of four digits yields.\<close>

definition b64_group :: "int \<Rightarrow> int \<Rightarrow> int \<Rightarrow> int \<Rightarrow> bytes" where
  "b64_group a b c d =
     (let w = push_bit 18 (word_of_int a) OR push_bit 12 (word_of_int b) :: 32 word;
          w = (if c \<noteq> - 2 then w OR push_bit 6 (word_of_int c) else w);
          w = (if d \<noteq> - 2 then w OR word_of_int d else w)
      in [ucast (drop_bit 16 (w AND 0xFF0000))] @
         (if c \<noteq> - 2 then [ucast (drop_bit 8 (w AND 0x00FF00))] else []) @
         (if d \<noteq> - 2 then [ucast (w AND 0x0000FF)] else []))"

function b64_decode :: "bytes \<Rightarrow> bytes" where
  "b64_decode p =
     (case b64_next p of
        None \<Rightarrow> []
      | Some (a, p1) \<Rightarrow>
          if a = - 2 then b64_decode p1
          else
            (case b64_next p1 of
               None \<Rightarrow> []
             | Some (b, p2) \<Rightarrow>
                 if b = - 2 then b64_decode p2
                 else
                   (case b64_next_pad p2 of
                      (c, p3) \<Rightarrow>
                        (case b64_next_pad p3 of
                           (d, p4) \<Rightarrow> b64_group a b c d @ b64_decode p4))))"
  by pat_completeness auto
termination
  by (relation "measure length")
     (auto dest!: b64_next_shorter sym [of _ "b64_next_pad _"] b64_next_pad_shorter)

declare b64_decode.simps [simp del]

definition ROUNDUP :: "nat \<Rightarrow> nat \<Rightarrow> nat" where
  "ROUNDUP x k = (x + k - 1) div k * k"

definition DecodeBase64 :: "allocator \<Rightarrow> cstr \<Rightarrow> bytes option" where
  "DecodeBase64 al data =
     (let p = arg_bytes data in
      if al (ROUNDUP (length p) 4 div 4 * 3 + 1) then Some (b64_decode p) else None)"

subsection \<open>Digits\<close>

lemma length_CHARS: "length CHARS = 64"
  by (simp add: CHARS_def str_def)

lemma kBase64_CHARS_table: "map kBase64 CHARS = map int [0..<64]"
  by (simp add: CHARS_def str_def kBase64_def tab256_def upt_rec)

lemma kBase64_CHARS: "k < 64 \<Longrightarrow> kBase64 (CHARS ! k) = int k"
  using kBase64_CHARS_table nth_map [of k CHARS kBase64] by (simp add: length_CHARS)

lemma kBase64_pad: "kBase64 0x3D = - 2"
  by (simp add: kBase64_def tab256_def)

lemma mask6: "w AND 0x3F = take_bit 6 w" for w :: "32 word"
proof -
  have "(0x3F :: 32 word) = mask 6" by (simp add: mask_eq_exp_minus_1)
  then show ?thesis by (simp add: take_bit_eq_mask)
qed

lemma digit_less: "unat (w AND 0x3F) < 64" for w :: "32 word"
  using take_bit_nat_less_exp [of 6 "unat w"] unfolding mask6 by (simp add: unsigned_take_bit_eq)

lemma kBase64_digit [simp]: "kBase64 (CHARS ! unat (w AND 0x3F)) = uint (w AND 0x3F)" for w :: "32 word"
  using kBase64_CHARS [OF digit_less] by simp

lemma uint_digit [simp]: "uint (w AND 0x3F) \<noteq> - 1" "uint (w AND 0x3F) \<noteq> - 2" for w :: "32 word"
  by (metis neg_0_le_iff_le not_one_le_zero uint_ge_0, metis neg_0_le_iff_le not_numeral_le_zero uint_ge_0)

subsection \<open>Decoding inverts encoding\<close>

lemma digits_word:
  fixes w :: "32 word"
  assumes "drop_bit 24 w = 0"
  shows "push_bit 18 (drop_bit 18 w AND 0x3F) OR push_bit 12 (drop_bit 12 w AND 0x3F) OR
         push_bit 6 (drop_bit 6 w AND 0x3F) OR (w AND 0x3F) = w"
proof (rule bit_word_eqI)
  fix n
  have hi: "\<not> bit w n" if "24 \<le> n"
  proof -
    have "bit (drop_bit 24 w) (n - 24) = bit w n" using that by (simp add: bit_simps)
    with assms show ?thesis by simp
  qed
  consider "n < 6" | "6 \<le> n" "n < 12" | "12 \<le> n" "n < 18" | "18 \<le> n" "n < 24" | "24 \<le> n"
    by linarith
  then show "bit (push_bit 18 (drop_bit 18 w AND 0x3F) OR push_bit 12 (drop_bit 12 w AND 0x3F) OR
      push_bit 6 (drop_bit 6 w AND 0x3F) OR (w AND 0x3F)) n = bit w n"
    unfolding mask6 using hi by cases (auto simp: bit_simps dest: bit_imp_le_length)
qed

lemma b64_word_bit:
  "bit (b64_word p0 ps) n \<longleftrightarrow>
     16 \<le> n \<and> bit p0 (n - 16) \<or>
     0 < length ps \<and> 8 \<le> n \<and> bit (ps ! 0) (n - 8) \<or>
     1 < length ps \<and> bit (ps ! 1) n"
  by (auto simp: b64_word_def Let_def bit_simps dest: bit_imp_le_length)

lemma b64_word_top: "drop_bit 24 (b64_word p0 ps) = 0"
  by (rule bit_word_eqI) (auto simp: b64_word_bit bit_simps dest: bit_imp_le_length)

lemma b64_word_low:
  "ps = [] \<Longrightarrow> drop_bit 6 (b64_word p0 ps) AND 0x3F = 0"
  "length ps \<le> 1 \<Longrightarrow> b64_word p0 ps AND 0x3F = 0"
  unfolding mask6 by (rule bit_word_eqI; auto simp: b64_word_bit bit_simps dest: bit_imp_le_length)+

lemma mask_bytes:
  "(0xFF0000 :: 32 word) = push_bit 16 (mask 8)" "(0x00FF00 :: 32 word) = push_bit 8 (mask 8)"
  "(0x0000FF :: 32 word) = mask 8"
  by (simp_all add: mask_eq_exp_minus_1)

lemma b64_word_bytes:
  "ucast (drop_bit 16 (b64_word p0 ps AND 0xFF0000)) = p0"
  "0 < length ps \<Longrightarrow> ucast (drop_bit 8 (b64_word p0 ps AND 0x00FF00)) = ps ! 0"
  "1 < length ps \<Longrightarrow> ucast (b64_word p0 ps AND 0x0000FF) = ps ! 1"
  unfolding mask_bytes
  by (rule bit_word_eqI; auto simp: b64_word_bit bit_simps dest: bit_imp_le_length)+

lemma b64_group_eq:
  fixes a b c d w :: "32 word"
  shows "push_bit 18 a OR push_bit 12 b = w \<Longrightarrow>
      b64_group (uint a) (uint b) (- 2) (- 2) = [ucast (drop_bit 16 (w AND 0xFF0000))]"
    and "(push_bit 18 a OR push_bit 12 b) OR push_bit 6 c = w \<Longrightarrow>
      b64_group (uint a) (uint b) (uint c) (- 2) =
        [ucast (drop_bit 16 (w AND 0xFF0000)), ucast (drop_bit 8 (w AND 0x00FF00))]"
    and "((push_bit 18 a OR push_bit 12 b) OR push_bit 6 c) OR d = w \<Longrightarrow>
      b64_group (uint a) (uint b) (uint c) (uint d) =
        [ucast (drop_bit 16 (w AND 0xFF0000)), ucast (drop_bit 8 (w AND 0x00FF00)),
         ucast (w AND 0x0000FF)]"
proof -
  have "uint x \<noteq> - 2" for x :: "32 word" using uint_ge_0 [of x] by linarith
  then show "push_bit 18 a OR push_bit 12 b = w \<Longrightarrow>
      b64_group (uint a) (uint b) (- 2) (- 2) = [ucast (drop_bit 16 (w AND 0xFF0000))]"
    "(push_bit 18 a OR push_bit 12 b) OR push_bit 6 c = w \<Longrightarrow>
      b64_group (uint a) (uint b) (uint c) (- 2) =
        [ucast (drop_bit 16 (w AND 0xFF0000)), ucast (drop_bit 8 (w AND 0x00FF00))]"
    "((push_bit 18 a OR push_bit 12 b) OR push_bit 6 c) OR d = w \<Longrightarrow>
      b64_group (uint a) (uint b) (uint c) (uint d) =
        [ucast (drop_bit 16 (w AND 0xFF0000)), ucast (drop_bit 8 (w AND 0x00FF00)),
         ucast (w AND 0x0000FF)]"
    by (auto simp: b64_group_def Let_def)
qed

lemma b64_group_word:
  fixes p0 ps
  defines "w \<equiv> b64_word p0 ps"
  shows "b64_group (uint (drop_bit 18 w AND 0x3F)) (uint (drop_bit 12 w AND 0x3F))
           (if 0 < length ps then uint (drop_bit 6 w AND 0x3F) else - 2)
           (if 1 < length ps then uint (w AND 0x3F) else - 2) = p0 # take 2 ps"
proof -
  note dw = digits_word [OF b64_word_top [of p0 ps], folded w_def, folded or.assoc]
  note bytes = b64_word_bytes [where ?p0.0 = p0 and ps = ps, folded w_def]
  consider "ps = []" | x where "ps = [x]" | x y r where "ps = x # y # r"
    by (cases ps; cases "tl ps") auto
  then show ?thesis
  proof cases
    case 1
    then have z: "drop_bit 6 w AND 0x3F = 0" "w AND 0x3F = 0" using b64_word_low by (simp_all add: w_def)
    have "push_bit 18 (drop_bit 18 w AND 0x3F) OR push_bit 12 (drop_bit 12 w AND 0x3F) = w"
      using dw unfolding z by (simp only: push_bit_of_0 or.right_neutral)
    from b64_group_eq(1) [OF this] 1 bytes show ?thesis by simp
  next
    case 2
    then have z: "w AND 0x3F = 0" using b64_word_low by (simp add: w_def)
    have "(push_bit 18 (drop_bit 18 w AND 0x3F) OR push_bit 12 (drop_bit 12 w AND 0x3F)) OR
        push_bit 6 (drop_bit 6 w AND 0x3F) = w"
      using dw unfolding z by (simp only: or.right_neutral)
    from b64_group_eq(2) [OF this] 2 bytes show ?thesis by simp
  next
    case 3
    from b64_group_eq(3) [OF dw] 3 bytes show ?thesis by simp
  qed
qed

lemma b64_decode_encode: "b64_decode (b64_encode p) = p"
proof (induction p rule: b64_encode.induct)
  case 1
  show ?case by (simp add: b64_decode.simps)
next
  case (2 p0 ps)
  have more: "ps \<noteq> [] \<Longrightarrow> \<not> 1 < length ps \<Longrightarrow> b64_encode (drop 2 ps) = []"
    "ps = [] \<Longrightarrow> b64_encode (drop 2 ps) = []" by (cases ps; simp)+
  have "b64_decode (b64_encode (p0 # ps)) = (p0 # take 2 ps) @ b64_decode (b64_encode (drop 2 ps))"
    unfolding b64_group_word [of p0 ps, symmetric]
    by (subst b64_decode.simps) (simp add: Let_def kBase64_pad)
  with 2 show ?case by (simp add: Let_def)
qed

interpretation base64: codec "\<lambda>_. True" b64_encode b64_decode "\<lambda>p. p"
  by unfold_locales (simp add: b64_decode_encode)

subsection \<open>Sizes\<close>

lemma b64_encoded_size_eq: "b64_encoded_size n = (n + 2) div 3 * 4"
proof -
  consider "n mod 3 = 0" | "n mod 3 = 1" | "n mod 3 = 2" by linarith
  then show ?thesis
  proof cases
    case 1
    then have n: "n = 3 * (n div 3)" by (metis mult_div_mod_eq add_0_right)
    have "(3 * (n div 3) + 2) div 3 = n div 3" by simp
    with 1 n show ?thesis by (simp add: b64_encoded_size_def Let_def)
  next
    case 2
    then have n: "n + 2 = 3 * (n div 3 + 1)" using mult_div_mod_eq [of 3 n] by simp
    with 2 show ?thesis by (simp add: b64_encoded_size_def Let_def)
  next
    case 3
    then have n: "n = 3 * (n div 3) + 2" using mult_div_mod_eq [of 3 n] by simp
    have "(3 * (n div 3) + 2 + 1) div 3 = n div 3 + 1" "(3 * (n div 3) + 2 + 2) div 3 = n div 3 + 1" by simp_all
    then have "(n + 1) div 3 = (n + 2) div 3" unfolding n [symmetric] by simp
    with 3 show ?thesis by (simp add: b64_encoded_size_def Let_def)
  qed
qed

lemma length_b64_encode: "length (b64_encode p) = b64_encoded_size (length p)"
proof (induction p rule: b64_encode.induct)
  case (2 p0 ps)
  consider "ps = []" | x where "ps = [x]" | x y r where "ps = x # y # r"
    by (cases ps; cases "tl ps") auto
  then show ?case
  proof cases
    case 3
    have "(length r + 5) div 3 = (length r + 2) div 3 + 1" by presburger
    then show ?thesis using 2 3 by (simp add: Let_def b64_encoded_size_eq add.commute)
  qed (simp_all add: Let_def b64_encoded_size_eq)
qed (simp add: b64_encoded_size_eq)

lemma b64_next_pad_digit: "b64_next_pad cs = (a, cs') \<Longrightarrow> a \<noteq> - 2 \<Longrightarrow> length cs' < length cs"
  by (induction cs) (auto simp: Let_def split: if_splits)

lemma length_b64_group:
  "length (b64_group a b c d) = 1 + (if c \<noteq> - 2 then 1 else 0) + (if d \<noteq> - 2 then 1 else 0)"
  by (simp add: b64_group_def Let_def)

lemma length_b64_decode: "4 * length (b64_decode p) \<le> 3 * length p"
proof (induction p rule: b64_decode.induct)
  case (1 p)
  show ?case
  proof (cases "b64_next p")
    case None
    then show ?thesis by (simp add: b64_decode.simps)
  next
    case (Some ap)
    obtain a p1 where ap: "ap = (a, p1)" by (cases ap)
    note l1 = b64_next_shorter [OF Some [unfolded ap]]
    show ?thesis
    proof (cases "a = - 2 \<or> b64_next p1 = None")
      case True
      with Some ap l1 "1.IH"(1) [OF Some ap [symmetric]] show ?thesis
        by (subst b64_decode.simps) auto
    next
      case False
      then obtain b p2 where b: "b64_next p1 = Some (b, p2)" by auto
      note l2 = b64_next_shorter [OF b]
      obtain c p3 d p4 where cd: "b64_next_pad p2 = (c, p3)" "b64_next_pad p3 = (d, p4)"
        by (metis surj_pair)
      note l34 = b64_next_pad_shorter [OF cd(1)] b64_next_pad_shorter [OF cd(2)]
        b64_next_pad_digit [OF cd(1)] b64_next_pad_digit [OF cd(2)]
      show ?thesis
      proof (cases "b = - 2")
        case True
        with False Some ap b l1 l2 "1.IH"(2) [OF Some ap [symmetric] _ b refl] show ?thesis
          by (subst b64_decode.simps) auto
      next
        case nb: False
        have "b64_decode p = b64_group a b c d @ b64_decode p4"
          using False nb Some ap b cd by (subst b64_decode.simps) auto
        with False nb Some ap b cd l1 l2 l34 "1.IH"(3) [OF Some ap [symmetric] _ b refl _ cd(1) [symmetric] cd(2) [symmetric]]
        show ?thesis by (auto simp: length_b64_group split: if_splits)
      qed
    qed
  qed
qed

text \<open>Bytes outside the two alphabets do not matter to the decoder.\<close>

lemma b64_next_filter:
  "b64_next (filter (\<lambda>c. kBase64 c \<noteq> - 1) cs) =
     map_option (map_prod id (filter (\<lambda>c. kBase64 c \<noteq> - 1))) (b64_next cs)"
  by (induction cs) (auto simp: Let_def)

lemma b64_next_pad_filter:
  "b64_next_pad (filter (\<lambda>c. kBase64 c \<noteq> - 1) cs) =
     map_prod id (filter (\<lambda>c. kBase64 c \<noteq> - 1)) (b64_next_pad cs)"
  by (induction cs) (auto simp: Let_def)

lemma b64_decode_filter: "b64_decode (filter (\<lambda>c. kBase64 c \<noteq> - 1) p) = b64_decode p"
proof (induction p rule: b64_decode.induct)
  case (1 p)
  show ?case
    by (subst (1 2) b64_decode.simps)
       (auto simp: b64_next_filter b64_next_pad_filter 1 split: option.splits prod.splits)
qed

text \<open>(C16) Decoding inverts encoding: whatever was encoded, \<open>DecodeBase64\<close> gives it back, and bytes
  outside the alphabets, such as line breaks, that are put into the encoded text make no difference.\<close>

theorem DecodeBase64_EncodeBase64:
  assumes "EncodeBase64 al data = Some e"
    and "filter (\<lambda>c. kBase64 c \<noteq> - 1) t = e"
  shows "DecodeBase64 (\<lambda>_. True) (Buf t) = Some (arg_bytes data)"
proof -
  have "e = b64_encode (arg_bytes data)" using assms(1) by (auto simp: EncodeBase64_def Let_def split: if_splits)
  then show ?thesis
    using b64_decode_filter [of t] assms(2) by (simp add: DecodeBase64_def b64_decode_encode)
qed

theorem DecodeBase64_EncodeBase64_witness:
  "EncodeBase64 (\<lambda>_. True) (Buf (str ''hi!'')) = Some (str ''aGkh'') \<and>
   DecodeBase64 (\<lambda>_. True) (Buf (str ''aG'' @ [ch_LF] @ str ''kh'')) = Some (str ''hi!'')"
proof -
  have e: "EncodeBase64 (\<lambda>_. True) (Buf (str ''hi!'')) = Some (str ''aGkh'')"
    by (simp add: EncodeBase64_def str_def b64_word_def CHARS_def)
  show ?thesis
    using DecodeBase64_EncodeBase64 [OF e, of "str ''aG'' @ [ch_LF] @ str ''kh''"] e
    by (simp add: str_def kBase64_def tab256_def)
qed



end
