(* ===== verification/Thompson_Pike.thy ===== *)
theory Thompson_Pike
  imports Cosmo_Prelude
begin

text \<open>
  Thompson-Pike variable-length integers (UTF-8 without the limits): the binary logarithm \<open>_bsr\<close>
  (\<open>libc/intrin/bsr.c\<close>), the encoder \<open>tpenc\<close> (\<open>libc/intrin/tpenc.c\<close>), the macros of
  \<open>libc/str/thompike.h\<close>, and the decoding loop that the escaping routines of \<open>net/http\<close> share.
  A code point is a \<open>32 word\<close>.  The lemmas show that every 32-bit number survives encoding and
  decoding, also in the middle of a string.
\<close>

type_synonym wint = "32 word"

subsection \<open>Binary logarithm\<close>

text \<open>Each line of the source halves the range; \<open>r\<close> collects the bits of the result.\<close>

definition bsr :: "32 word \<Rightarrow> nat" where
  "bsr x =
     (let (x, r) = (if x AND 0xFFFF0000 \<noteq> 0 then (drop_bit 16 x, 16) else (x, 0));
          (x, r) = (if x AND 0xFF00 \<noteq> 0 then (drop_bit 8 x, r + 8) else (x, r));
          (x, r) = (if x AND 0xF0 \<noteq> 0 then (drop_bit 4 x, r + 4) else (x, r));
          (x, r) = (if x AND 0xC \<noteq> 0 then (drop_bit 2 x, r + 2) else (x, r))
      in if x AND 0x2 \<noteq> 0 then r + 1 else r)"

subsection \<open>Macros\<close>

definition ThomPikeCont :: "byte \<Rightarrow> bool" where
  "ThomPikeCont x \<longleftrightarrow> 0x80 = (0xC0 AND x)"

definition ThomPikeMsb :: "byte \<Rightarrow> nat" where
  "ThomPikeMsb x = (if x < 252 then bsr (ucast (NOT x)) else 1)"

definition ThomPikeLen :: "byte \<Rightarrow> nat" where
  "ThomPikeLen x = 7 - ThomPikeMsb x"

definition ThomPikeByte :: "byte \<Rightarrow> wint" where
  "ThomPikeByte x = ucast x AND ((push_bit (ThomPikeMsb x) 1 - 1) OR 3)"

definition ThomPikeMerge :: "wint \<Rightarrow> byte \<Rightarrow> wint" where
  "ThomPikeMerge x y = push_bit 6 x OR (0x3F AND ucast y)"

subsection \<open>Encoder\<close>

text \<open>The low byte of an entry is the number of continuation bytes, the high byte the lead.\<close>

definition kTpEnc :: "(nat \<times> byte) list" where
  "kTpEnc =
     [(1, 0xC0), (1, 0xC0), (1, 0xC0), (1, 0xC0), (2, 0xE0),
      (2, 0xE0), (2, 0xE0), (2, 0xE0), (2, 0xE0), (3, 0xF0),
      (3, 0xF0), (3, 0xF0), (3, 0xF0), (3, 0xF0), (4, 0xF8),
      (4, 0xF8), (4, 0xF8), (4, 0xF8), (4, 0xF8), (5, 0xFC),
      (5, 0xFC), (5, 0xFC), (5, 0xFC), (5, 0xFC), (5, 0xFC)]"

fun tpenc_loop :: "nat \<Rightarrow> wint \<Rightarrow> 64 word \<Rightarrow> wint \<times> 64 word" where
  "tpenc_loop 0 c w = (c, w)"
| "tpenc_loop (Suc n) c w =
     tpenc_loop n (drop_bit 6 c) (push_bit 8 (w OR (0x80 OR ucast (c AND 0x3F))))"

definition tpenc :: "wint \<Rightarrow> 64 word" where
  "tpenc c =
     (if c \<le> 127 then ucast c
      else
        (let e = kTpEnc ! (bsr c - 7);
             (c', w) = tpenc_loop (fst e) c 0
         in (ucast c' OR w) OR ucast (snd e)))"

text \<open>The loop \<open>do { *q++ = w; } while ((w >>= 8))\<close> of the callers.\<close>

function emit_bytes :: "64 word \<Rightarrow> bytes" where
  "emit_bytes w = ucast w # (if drop_bit 8 w = 0 then [] else emit_bytes (drop_bit 8 w))"
  by pat_completeness auto
termination
proof (relation "measure unat", goal_cases)
  case (2 w)
  have "unat (drop_bit 8 w) = unat w div 2 ^ 8" by (simp add: drop_bit_eq_div unat_div_distrib)
  moreover have "unat w \<noteq> 0" using 2 by (cases "w = 0") (auto simp: unat_eq_0)
  ultimately show ?case by simp
qed simp

declare emit_bytes.simps [simp del]

definition tp_bytes :: "wint \<Rightarrow> bytes" where
  "tp_bytes x = emit_bytes (tpenc x)"

subsection \<open>Decoder\<close>

text \<open>
  The loop over the \<open>m\<close> continuation bytes; \<open>None\<close> when it meets a byte that is not one.
\<close>

fun tp_merge :: "nat \<Rightarrow> wint \<Rightarrow> bytes \<Rightarrow> (wint \<times> bytes) option" where
  "tp_merge 0 a bs = Some (a, bs)"
| "tp_merge (Suc m) a [] = None"
| "tp_merge (Suc m) a (b # bs) =
     (if \<not> ThomPikeCont b then None else tp_merge m (ThomPikeMerge a b) bs)"

text \<open>
  One code point, from the first byte and the bytes that follow it.  When the sequence is not
  complete the first byte stands for itself.
\<close>

definition tp_next :: "byte \<Rightarrow> bytes \<Rightarrow> wint \<times> bytes" where
  "tp_next c cs =
     (if c \<ge> 0xC0 then
        (let m = ThomPikeLen c - 1 in
         if m \<le> length cs then
           (case tp_merge m (ThomPikeByte c) cs of Some (x, cs') \<Rightarrow> (x, cs') | None \<Rightarrow> (ucast c, cs))
         else (ucast c, cs))
      else (ucast c, cs))"

lemma tp_merge_length: "tp_merge m a bs = Some (x, bs') \<Longrightarrow> length bs' \<le> length bs"
  by (induction m a bs rule: tp_merge.induct) (auto split: if_splits)

lemma tp_next_length: "tp_next c cs = (x, cs') \<Longrightarrow> length cs' \<le> length cs"
  by (auto simp: tp_next_def Let_def split: if_splits option.splits dest: tp_merge_length)

text \<open>The sequence of code points of a string.\<close>

function tp_decode :: "bytes \<Rightarrow> wint list" where
  "tp_decode [] = []"
| "tp_decode (c # cs) = (case tp_next c cs of (x, cs') \<Rightarrow> x # tp_decode cs')"
  by pat_completeness auto
termination
  by (relation "measure length") (auto dest!: sym [of _ "tp_next _ _"] tp_next_length)

subsection \<open>The logarithm\<close>

lemma unat32_less: "unat (x :: 32 word) < 4294967296"
proof -
  have "unat x < 2 ^ LENGTH(32)" by (rule unsigned_less)
  then show ?thesis by simp
qed

lemma and_shifted_mask:
  fixes x :: "32 word"
  assumes "unat x < 2 ^ (k + m)"
  shows "x AND push_bit k (mask m) \<noteq> 0 \<longleftrightarrow> 2 ^ k \<le> unat x"
proof -
  have top: "n < k + m" if "bit x n" for n
  proof -
    have "take_bit (k + m) (unat x) = unat x" using assms by (simp add: take_bit_nat_eq_self)
    then have "bit (unat x) n \<Longrightarrow> n < k + m" by (metis bit_take_bit_iff)
    with that show ?thesis by (simp add: bit_unsigned_iff)
  qed
  have "x AND push_bit k (mask m) = 0 \<longleftrightarrow> (\<forall>n. k \<le> n \<longrightarrow> \<not> bit x n)"
  proof
    assume z: "x AND push_bit k (mask m) = 0"
    show "\<forall>n. k \<le> n \<longrightarrow> \<not> bit x n"
    proof (intro allI impI)
      fix n assume "k \<le> n"
      show "\<not> bit x n"
      proof
        assume b: "bit x n"
        have "n < k + m" "n < 32" using top [OF b] bit_imp_le_length [OF b] by simp_all
        then have "bit (x AND push_bit k (mask m)) n" using b \<open>k \<le> n\<close> by (simp add: bit_simps less_diff_conv2)
        with z show False by simp
      qed
    qed
  next
    assume "\<forall>n. k \<le> n \<longrightarrow> \<not> bit x n"
    then show "x AND push_bit k (mask m) = 0" by (intro bit_word_eqI) (auto simp: bit_simps)
  qed
  also have "\<dots> \<longleftrightarrow> take_bit k (unat x) = unat x"
  proof -
    have "take_bit k (unat x) = unat x \<longleftrightarrow> (\<forall>n. (n < k \<and> bit x n) = bit x n)"
      by (simp add: bit_eq_iff [where 'a = nat] bit_take_bit_iff bit_unsigned_iff)
    also have "\<dots> \<longleftrightarrow> (\<forall>n. k \<le> n \<longrightarrow> \<not> bit x n)" by (meson leD leI)
    finally show ?thesis by simp
  qed
  also have "\<dots> \<longleftrightarrow> unat x < 2 ^ k" by (simp add: take_bit_nat_eq_self_iff)
  finally show ?thesis by auto
qed

lemma bsr_masks:
  "(0xFFFF0000 :: 32 word) = push_bit 16 (mask 16)" "(0xFF00 :: 32 word) = push_bit 8 (mask 8)"
  "(0xF0 :: 32 word) = push_bit 4 (mask 4)" "(0xC :: 32 word) = push_bit 2 (mask 2)"
  "(0x2 :: 32 word) = push_bit 1 (mask 1)"
  by (simp_all add: mask_eq_exp_minus_1)

lemma unat_drop_bit: "unat (drop_bit k x) = unat x div 2 ^ k" for x :: "32 word"
proof -
  have "take_bit 32 (unat x) = unat x" using unat32_less [of x] by (simp add: take_bit_nat_eq_self)
  then show ?thesis by (simp add: unsigned_drop_bit_eq drop_bit_eq_div [where 'a = nat])
qed

text \<open>One halving step: it keeps the position of the highest bit.\<close>

definition halve :: "nat \<Rightarrow> 32 word \<times> nat \<Rightarrow> 32 word \<times> nat" where
  "halve k xr = (if fst xr AND push_bit k (mask k) \<noteq> 0 then (drop_bit k (fst xr), snd xr + k) else xr)"

lemma halve_keeps:
  assumes "0 < unat x" "unat x < 2 ^ (k + k)" "2 ^ r * unat x \<le> v" "v < 2 ^ r * (unat x + 1)"
    and h: "halve k (x, r) = (x', r')"
  shows "0 < unat x' \<and> unat x' < 2 ^ k \<and> 2 ^ r' * unat x' \<le> v \<and> v < 2 ^ r' * (unat x' + 1)"
proof (cases "2 ^ k \<le> unat x")
  case False
  then have "halve k (x, r) = (x, r)" using and_shifted_mask [OF assms(2)] by (simp add: halve_def)
  with h assms False show ?thesis by simp
next
  case True
  let ?q = "unat x div 2 ^ k"
  have x': "unat x' = ?q" "r' = r + k"
    using True h and_shifted_mask [OF assms(2)] by (auto simp: halve_def unat_drop_bit)
  have "0 < ?q" using True by (simp add: div_greater_zero_iff)
  moreover have "?q < 2 ^ k" using assms(2) by (simp add: power_add less_mult_imp_div_less)
  moreover have "2 ^ k * ?q \<le> unat x" by simp
  then have "2 ^ r * (2 ^ k * ?q) \<le> v" using assms(3) by (meson le_trans mult_le_mono2)
  moreover have "unat x + 1 \<le> 2 ^ k * (?q + 1)"
  proof -
    have "2 ^ k * ?q + unat x mod 2 ^ k = unat x" "unat x mod 2 ^ k < 2 ^ k" by simp_all
    then have "unat x + 1 \<le> 2 ^ k * ?q + 2 ^ k" by linarith
    then show ?thesis by (simp add: distrib_left)
  qed
  then have "v < 2 ^ r * (2 ^ k * (?q + 1))" using assms(4) by (meson less_le_trans mult_le_mono2)
  ultimately show ?thesis by (simp add: x' power_add mult.assoc distrib_left)
qed

lemma bsr_halve: "bsr x = snd (halve 1 (halve 2 (halve 4 (halve 8 (halve 16 (x, 0))))))"
  unfolding bsr_def bsr_masks halve_def by (simp add: Let_def)

lemma bsr_log_bounds:
  assumes "x \<noteq> 0"
  shows "2 ^ bsr x \<le> unat x \<and> unat x < 2 ^ (bsr x + 1)"
proof -
  obtain x1 r1 where 1: "halve 16 (x, 0) = (x1, r1)" by fastforce
  obtain x2 r2 where 2: "halve 8 (x1, r1) = (x2, r2)" by fastforce
  obtain x3 r3 where 3: "halve 4 (x2, r2) = (x3, r3)" by fastforce
  obtain x4 r4 where 4: "halve 2 (x3, r3) = (x4, r4)" by fastforce
  obtain x5 r5 where 5: "halve 1 (x4, r4) = (x5, r5)" by fastforce
  have b: "bsr x = r5" unfolding bsr_halve by (simp only: 1 2 3 4 5 snd_conv)
  have "0 < unat x" "unat x < 2 ^ (16 + 16)" using assms unat32_less [of x] by (simp_all add: unat_gt_0)
  then have "0 < unat x1 \<and> unat x1 < 2 ^ 16 \<and> 2 ^ r1 * unat x1 \<le> unat x \<and> unat x < 2 ^ r1 * (unat x1 + 1)"
    by (intro halve_keeps [OF _ _ _ _ 1]) simp_all
  then have "0 < unat x2 \<and> unat x2 < 2 ^ 8 \<and> 2 ^ r2 * unat x2 \<le> unat x \<and> unat x < 2 ^ r2 * (unat x2 + 1)"
    by (intro halve_keeps [OF _ _ _ _ 2]) simp_all
  then have "0 < unat x3 \<and> unat x3 < 2 ^ 4 \<and> 2 ^ r3 * unat x3 \<le> unat x \<and> unat x < 2 ^ r3 * (unat x3 + 1)"
    by (intro halve_keeps [OF _ _ _ _ 3]) simp_all
  then have "0 < unat x4 \<and> unat x4 < 2 ^ 2 \<and> 2 ^ r4 * unat x4 \<le> unat x \<and> unat x < 2 ^ r4 * (unat x4 + 1)"
    by (intro halve_keeps [OF _ _ _ _ 4]) simp_all
  then have "0 < unat x5 \<and> unat x5 < 2 ^ 1 \<and> 2 ^ r5 * unat x5 \<le> unat x \<and> unat x < 2 ^ r5 * (unat x5 + 1)"
    by (intro halve_keeps [OF _ _ _ _ 5]) simp_all
  moreover from this have "unat x5 = 1" by simp
  ultimately show ?thesis by (simp add: b)
qed

text \<open>(C15) The five conditional shifts of \<open>_bsr\<close> find the position of the highest bit that is set:
  they compute the integer part of the binary logarithm.\<close>

theorem bsr_log2:
  assumes "x \<noteq> 0"
  shows "2 ^ bsr x \<le> unat x \<and> unat x < 2 ^ (bsr x + 1)"
  using assms by (rule bsr_log_bounds)

theorem bsr_log2_witness: "2 ^ bsr 0x08000010 \<le> (0x08000010 :: nat) \<and> bsr 0x08000010 = 27"
  using bsr_log2 [of "0x08000010"] by (simp add: bsr_def)

subsection \<open>Every code point survives\<close>

definition tp_cont :: "wint \<Rightarrow> byte" where
  "tp_cont c = 0x80 OR ucast (c AND 0x3F)"

fun conts :: "nat \<Rightarrow> wint \<Rightarrow> bytes" where
  "conts 0 c = []"
| "conts (Suc n) c = conts n (drop_bit 6 c) @ [tp_cont c]"

lemma length_conts [simp]: "length (conts n c) = n"
  by (induction n arbitrary: c) auto

lemma mask_3F: "(0x3F :: 32 word) = mask 6" "(0xC0 :: byte) = push_bit 6 (mask 2)"
  by (simp_all add: mask_eq_exp_minus_1)

lemma bit_80: "bit (0x80 :: int) n \<longleftrightarrow> n = 7"
proof -
  have "(0x80 :: int) = 2 ^ 7" by simp
  then show ?thesis by (simp only: bit_exp_iff possible_bit_def) auto
qed

lemma bit_tp_cont: "bit (tp_cont c) n \<longleftrightarrow> n = 7 \<or> n < 6 \<and> bit c n"
  unfolding tp_cont_def mask_3F by (auto simp: bit_simps bit_80)

lemma ThomPikeCont_tp_cont: "ThomPikeCont (tp_cont c)"
  unfolding ThomPikeCont_def mask_3F
  by (rule bit_word_eqI) (auto simp: bit_simps bit_80 bit_tp_cont)

lemma ThomPikeMerge_tp_cont: "ThomPikeMerge (drop_bit 6 c) (tp_cont c) = c"
  unfolding ThomPikeMerge_def mask_3F
proof (rule bit_word_eqI)
  fix n assume "n < LENGTH(32)"
  then show "bit (push_bit 6 (drop_bit 6 c) OR mask 6 AND ucast (tp_cont c)) n = bit c n"
    by (cases "n < 6") (auto simp: bit_simps bit_tp_cont)
qed

lemma tp_merge_add:
  "tp_merge (m + k) a bs = (case tp_merge m a bs of Some (a', bs') \<Rightarrow> tp_merge k a' bs' | None \<Rightarrow> None)"
  by (induction m a bs rule: tp_merge.induct) auto

lemma tp_merge_conts: "tp_merge n (drop_bit (6 * n) c) (conts n c @ rest) = Some (c, rest)"
proof (induction n arbitrary: c rest)
  case (Suc n)
  have "drop_bit (6 * Suc n) c = drop_bit (6 * n) (drop_bit 6 c)" by (simp add: add.commute)
  then show ?case
    using Suc.IH [of "drop_bit 6 c" "tp_cont c # rest"] tp_merge_add [of n 1]
    by (simp add: ThomPikeCont_tp_cont ThomPikeMerge_tp_cont)
qed simp

text \<open>\<open>packs u xs\<close>: the bytes \<open>xs\<close>, none of them NUL at the end, are packed into \<open>u\<close>, low byte first.\<close>

definition packs :: "64 word \<Rightarrow> bytes \<Rightarrow> bool" where
  "packs u xs \<longleftrightarrow> (if xs = [] then u = 0 else u \<noteq> 0 \<and> emit_bytes u = xs \<and> drop_bit (8 * length xs) u = 0)"

lemma emit_Cons:
  fixes u :: "64 word" and b :: byte
  assumes "drop_bit 56 u = 0"
  shows "emit_bytes (ucast b OR push_bit 8 u) = b # (if u = 0 then [] else emit_bytes u)"
proof -
  have "ucast (ucast b OR push_bit 8 u :: 64 word) = b"
    by (rule bit_word_eqI) (auto simp: bit_simps dest: bit_imp_le_length)
  moreover have "drop_bit 8 (ucast b OR push_bit 8 u) = u"
  proof (rule bit_word_eqI)
    fix n assume "n < LENGTH(64)"
    have "n < 56" if "bit u n"
    proof (rule ccontr)
      assume "\<not> n < 56"
      then have "bit (drop_bit 56 u) (n - 56)" using that by (simp add: bit_simps)
      with assms show False by simp
    qed
    then show "bit (drop_bit 8 (ucast b OR push_bit 8 u)) n = bit u n"
      by (auto simp: bit_simps dest: bit_imp_le_length)
  qed
  ultimately show ?thesis by (subst emit_bytes.simps) simp
qed

lemma packs_Cons:
  assumes "packs u xs" "b \<noteq> 0" "length xs < 7"
  shows "packs (ucast b OR push_bit 8 u) (b # xs)"
proof -
  have d: "drop_bit (8 * length xs) u = 0" using assms(1) by (cases xs) (auto simp: packs_def)
  have top: "n < 8 * length xs" if "bit u n" for n
  proof (rule ccontr)
    assume "\<not> n < 8 * length xs"
    then have "bit (drop_bit (8 * length xs) u) (n - 8 * length xs)" using that by (simp add: bit_simps)
    with d show False by simp
  qed
  have "drop_bit 56 u = 0"
  proof (rule bit_word_eqI)
    fix n
    show "bit (drop_bit 56 u) n = bit 0 n" using top [of "56 + n"] assms(3) by (auto simp: bit_simps)
  qed
  moreover have "drop_bit (8 * length (b # xs)) (ucast b OR push_bit 8 u) = 0"
  proof (rule bit_word_eqI)
    fix n
    show "bit (drop_bit (8 * length (b # xs)) (ucast b OR push_bit 8 u)) n = bit 0 n"
      using top [of "8 * length xs + n"] bit_imp_le_length [of b "8 + 8 * length xs + n"]
      by (auto simp: bit_simps)
  qed
  moreover have "ucast b OR push_bit 8 u \<noteq> (0 :: 64 word)"
  proof -
    from assms(2) obtain k where "bit b k" by (metis bit_eqI bit_0_eq bot_apply bot_bool_def)
    then have "bit (ucast b OR push_bit 8 u :: 64 word) k"
      using bit_imp_le_length [of b k] by (simp add: bit_simps)
    then show ?thesis by auto
  qed
  ultimately show ?thesis
    using assms(1) by (auto simp: packs_def emit_Cons split: if_splits)
qed

lemma tpenc_loop_packs:
  assumes "packs u xs" "n + length xs \<le> 6"
  shows "\<exists>u'. tpenc_loop n c (push_bit 8 u) = (drop_bit (6 * n) c, push_bit 8 u') \<and>
              packs u' (conts n c @ xs)"
  using assms
proof (induction n arbitrary: c u xs)
  case (Suc n)
  have nz: "tp_cont c \<noteq> 0" using ThomPikeCont_tp_cont [of c] by (auto simp: ThomPikeCont_def)
  have "push_bit 8 u OR (0x80 OR ucast (c AND 0x3F)) = ucast (tp_cont c) OR push_bit 8 u"
    unfolding mask_3F
    by (rule bit_word_eqI) (auto simp: bit_simps bit_80 bit_tp_cont)
  moreover have "packs (ucast (tp_cont c) OR push_bit 8 u) (tp_cont c # xs)"
    using Suc.prems nz by (intro packs_Cons) auto
  moreover have "drop_bit (6 * Suc n) c = drop_bit (6 * n) (drop_bit 6 c)" by (simp add: add.commute)
  ultimately show ?case using Suc.IH [of "ucast (tp_cont c) OR push_bit 8 u" "tp_cont c # xs" "drop_bit 6 c"] Suc.prems
    by simp
qed auto

text \<open>The lead bytes: with \<open>n\<close> continuation bytes the lead holds the top bits.\<close>

definition lead_ok :: "nat \<Rightarrow> byte \<Rightarrow> nat \<Rightarrow> bool" where
  "lead_ok n l k \<longleftrightarrow>
     ThomPikeLen (l OR of_nat k) = n + 1 \<and> ThomPikeByte (l OR of_nat k) = of_nat k \<and>
     l OR of_nat k \<ge> 0xC0 \<and> l OR of_nat k \<noteq> 0"

lemma leads:
  "list_all (lead_ok 1 0xC0) [0..<32]" "list_all (lead_ok 2 0xE0) [0..<16]"
  "list_all (lead_ok 3 0xF0) [0..<8]" "list_all (lead_ok 4 0xF8) [0..<4]" "list_all (lead_ok 5 0xFC) [0..<4]"
  by (simp_all add: upt_rec lead_ok_def ThomPikeLen_def ThomPikeByte_def ThomPikeMsb_def bsr_def)

lemma entries:
  "list_all (\<lambda>b. kTpEnc ! (b - 7) = (1, 0xC0)) [7..<11]"
  "list_all (\<lambda>b. kTpEnc ! (b - 7) = (2, 0xE0)) [11..<16]"
  "list_all (\<lambda>b. kTpEnc ! (b - 7) = (3, 0xF0)) [16..<21]"
  "list_all (\<lambda>b. kTpEnc ! (b - 7) = (4, 0xF8)) [21..<26]"
  "list_all (\<lambda>b. kTpEnc ! (b - 7) = (5, 0xFC)) [26..<32]"
  by (simp_all add: upt_rec kTpEnc_def)

text \<open>What the table says about a code point whose highest bit is at \<open>b\<close>.\<close>

lemma entry_lead:
  assumes "list_all (\<lambda>b. kTpEnc ! (b - 7) = (n, l)) [lo..<hi]" "list_all (lead_ok n l) [0..<2 ^ (hi - 6 * n)]"
    and "lo \<le> b" "b < hi" "hi \<le> 6 * n + 5" "1 \<le> n" "n \<le> 5"
  shows "\<exists>n l. kTpEnc ! (b - 7) = (n, l) \<and> 1 \<le> n \<and> n \<le> 5 \<and> b < 6 * n + 5 \<and>
    (\<forall>k < 2 ^ (b + 1 - 6 * n). lead_ok n l k)"
proof -
  have "b + 1 - 6 * n \<le> hi - 6 * n" using assms by simp
  then have le: "(2 :: nat) ^ (b + 1 - 6 * n) \<le> 2 ^ (hi - 6 * n)" by (intro power_increasing) auto
  have "lead_ok n l k" if "k < 2 ^ (b + 1 - 6 * n)" for k
    using assms(2) less_le_trans [OF that le] by (auto simp: list_all_iff)
  moreover have "kTpEnc ! (b - 7) = (n, l)" using assms(1,3,4) by (auto simp: list_all_iff)
  ultimately show ?thesis using assms by (intro exI [of _ n] exI [of _ l]) auto
qed

lemma kTpEnc_entry:
  assumes "7 \<le> b" "b < 32"
  shows "\<exists>n l. kTpEnc ! (b - 7) = (n, l) \<and> 1 \<le> n \<and> n \<le> 5 \<and> b < 6 * n + 5 \<and>
    (\<forall>k < 2 ^ (b + 1 - 6 * n). lead_ok n l k)"
proof -
  consider "b < 11" | "11 \<le> b" "b < 16" | "16 \<le> b" "b < 21" | "21 \<le> b" "b < 26" | "26 \<le> b"
    by linarith
  then show ?thesis
  proof cases
    case 1
    show ?thesis by (rule entry_lead [OF entries(1)]) (use 1 assms leads(1) in simp_all)
  next
    case 2
    show ?thesis by (rule entry_lead [OF entries(2)]) (use 2 assms leads(2) in simp_all)
  next
    case 3
    show ?thesis by (rule entry_lead [OF entries(3)]) (use 3 assms leads(3) in simp_all)
  next
    case 4
    show ?thesis by (rule entry_lead [OF entries(4)]) (use 4 assms leads(4) in simp_all)
  next
    case 5
    show ?thesis by (rule entry_lead [OF entries(5)]) (use 5 assms leads(5) in simp_all)
  qed
qed

lemma bsr_bounds:
  assumes "\<not> x \<le> 127" shows "7 \<le> bsr x" "bsr x < 32"
proof -
  have big: "127 < unat x" using assms by (simp add: word_le_nat_alt)
  then have "x \<noteq> 0" by auto
  note log = bsr_log_bounds [OF this]
  show "7 \<le> bsr x"
  proof (rule ccontr)
    assume "\<not> 7 \<le> bsr x"
    then have "(2 :: nat) ^ (bsr x + 1) \<le> 2 ^ 7" by (intro power_increasing) auto
    with log big show False by simp
  qed
  show "bsr x < 32"
  proof (rule ccontr)
    assume "\<not> bsr x < 32"
    then have "(2 :: nat) ^ 32 \<le> 2 ^ bsr x" by (intro power_increasing) auto
    with log unat32_less [of x] show False by simp
  qed
qed

lemma or_lead:
  fixes c :: wint and l :: byte and u :: "64 word"
  assumes "\<And>k. bit c k \<Longrightarrow> k < 8"
  shows "(ucast c OR push_bit 8 u) OR ucast l = ucast (l OR ucast c) OR push_bit 8 u"
  by (rule bit_word_eqI) (auto simp: bit_simps dest: assms)

text \<open>The bytes of a code point: a lead with the top bits, and continuation bytes.\<close>

lemma tp_bytes_long:
  assumes "\<not> x \<le> 127"
  shows "\<exists>n l. tp_bytes x = (l OR ucast (drop_bit (6 * n) x)) # conts n x \<and> n \<le> 5 \<and>
    kTpEnc ! (bsr x - 7) = (n, l) \<and> lead_ok n l (unat (drop_bit (6 * n) x))"
proof -
  obtain n l where e: "kTpEnc ! (bsr x - 7) = (n, l)" "1 \<le> n" "n \<le> 5" "bsr x < 6 * n + 5"
    and ok: "\<forall>k < 2 ^ (bsr x + 1 - 6 * n). lead_ok n l k"
    using kTpEnc_entry [OF bsr_bounds [OF assms]] by blast
  let ?c = "drop_bit (6 * n) x"
  have "x \<noteq> 0" using assms by auto
  then have "unat x < 2 ^ (bsr x + 1)" using bsr_log_bounds by blast
  also have "(2 :: nat) ^ (bsr x + 1) \<le> 2 ^ (6 * n + (bsr x + 1 - 6 * n))"
    by (intro power_increasing) auto
  also have "\<dots> = 2 ^ (6 * n) * 2 ^ (bsr x + 1 - 6 * n)" by (rule power_add)
  finally have top: "unat ?c < 2 ^ (bsr x + 1 - 6 * n)"
    by (simp add: unat_drop_bit less_mult_imp_div_less mult.commute)
  with ok have lead: "lead_ok n l (unat ?c)" by blast
  have "(2 :: nat) ^ (bsr x + 1 - 6 * n) \<le> 2 ^ 5" using e(4) by (intro power_increasing) auto
  with top have small: "unat ?c < 32" by simp
  obtain u where u: "tpenc_loop n x (push_bit 8 0) = (?c, push_bit 8 u)" "packs u (conts n x @ [])"
    using tpenc_loop_packs [of 0 "[]" n x] e(3) by (auto simp: packs_def)
  have sm: "k < 8" if "bit ?c k" for k
  proof -
    have "take_bit 8 (unat ?c) = unat ?c" using small by (simp add: take_bit_nat_eq_self)
    then have "bit (unat ?c) k \<Longrightarrow> k < 8" by (metis bit_take_bit_iff)
    with that show ?thesis by (simp add: bit_unsigned_iff)
  qed
  have "tpenc x = (ucast ?c OR push_bit 8 u) OR ucast l"
    using assms e(1) u(1) unfolding tpenc_def by simp
  also have "\<dots> = ucast (l OR ucast ?c) OR push_bit 8 u" by (rule or_lead) (rule sm)
  finally have "tpenc x = ucast (l OR ucast ?c) OR push_bit 8 u" .
  moreover have "packs (ucast (l OR ucast ?c) OR push_bit 8 u) ((l OR ucast ?c) # conts n x)"
    using u(2) lead e(3) by (intro packs_Cons) (auto simp: lead_ok_def)
  ultimately have "tp_bytes x = (l OR ucast ?c) # conts n x" by (simp add: tp_bytes_def packs_def)
  with lead e(1,3) show ?thesis by blast
qed

lemma small_byte:
  fixes x :: wint
  assumes "x \<le> 127"
  shows "unat (ucast x :: byte) = unat x" "ucast (ucast x :: byte) = (ucast x :: 64 word)"
    "ucast (ucast x :: byte) = x" "\<not> 0xC0 \<le> (ucast x :: byte)"
proof -
  have l: "unat x \<le> 127" using assms by (simp add: word_le_nat_alt)
  then show u: "unat (ucast x :: byte) = unat x" by (simp add: unsigned_ucast_eq take_bit_nat_eq_self)
  have "take_bit 64 (unat x) = unat x" using l by (simp add: take_bit_nat_eq_self)
  then show "ucast (ucast x :: byte) = (ucast x :: 64 word)"
    using u l by (simp add: word_unat_eq_iff unsigned_ucast_eq unsigned_take_bit_eq take_bit_nat_eq_self)
  show "ucast (ucast x :: byte) = x"
    using u l by (simp add: word_unat_eq_iff unsigned_ucast_eq unsigned_take_bit_eq take_bit_nat_eq_self)
  show "\<not> 0xC0 \<le> (ucast x :: byte)" using u l by (simp add: word_le_nat_alt)
qed

lemma tp_bytes_short: "x \<le> 127 \<Longrightarrow> tp_bytes x = [ucast x]"
  using emit_Cons [of 0 "ucast x"] by (simp add: tp_bytes_def tpenc_def small_byte)

lemma tp_next_tp_bytes:
  "\<exists>b bs. tp_bytes x = b # bs \<and> tp_next b (bs @ rest) = (x, rest)"
proof (cases "x \<le> 127")
  case True
  then show ?thesis by (simp add: tp_bytes_short tp_next_def small_byte)
next
  case False
  then obtain n l where b: "tp_bytes x = (l OR ucast (drop_bit (6 * n) x)) # conts n x"
    and ok: "lead_ok n l (unat (drop_bit (6 * n) x))" using tp_bytes_long by blast
  let ?b = "l OR ucast (drop_bit (6 * n) x)"
  have e: "of_nat (unat (drop_bit (6 * n) x)) = (ucast (drop_bit (6 * n) x) :: byte)"
    "of_nat (unat (drop_bit (6 * n) x)) = drop_bit (6 * n) x" by simp_all
  have "ThomPikeLen ?b = n + 1" "ThomPikeByte ?b = drop_bit (6 * n) x" "?b \<ge> 0xC0"
    using ok by (simp_all only: lead_ok_def e)
  then have "tp_next ?b (conts n x @ rest) = (x, rest)"
    by (simp add: tp_next_def tp_merge_conts)
  with b show ?thesis by auto
qed

lemma tp_decode_bytes: "tp_decode (concat (map tp_bytes xs)) = xs"
proof (induction xs)
  case (Cons x xs)
  obtain b bs where "tp_bytes x = b # bs" "tp_next b (bs @ concat (map tp_bytes xs)) = (x, concat (map tp_bytes xs))"
    using tp_next_tp_bytes by blast
  with Cons show ?case by simp
qed simp

interpretation thompson_pike: codec "\<lambda>_. True" "\<lambda>xs. concat (map tp_bytes xs)" tp_decode "\<lambda>xs. xs"
  by unfold_locales (rule tp_decode_bytes)

text \<open>(C14) Encoding followed by decoding is the identity on sequences of 32-bit code points: the bytes
  that \<open>tpenc\<close> yields for each of them, one after the other, decode to the same sequence.\<close>

theorem tp_decode_tpenc: "tp_decode (concat (map tp_bytes xs)) = xs"
  by (rule thompson_pike.dec_enc) simp

end
