(* ===== verification/Http_Escape.thy ===== *)
theory Http_Escape
  imports Thompson_Pike Http_Tables
begin

text \<open>
  Routines of \<open>net/http\<close> that re-encode text: \<open>underlong.c\<close>, \<open>visualizecontrolcodes.c\<close>,
  \<open>hascontrolcodes.c\<close>, \<open>escapehtml.c\<close>, \<open>escapejsstringliteral.c\<close>, \<open>encodelatin1.c\<close>, \<open>decodelatin1.c\<close>,
  \<open>encodehttpheadervalue.c\<close> and \<open>indentlines.c\<close>.  The output buffer is a list without its terminating
  NUL, \<open>NULL\<close> is \<open>None\<close>, or an \<open>errno\<close> where the routine sets one.  The vector loops that copy
  sixteen ASCII bytes at a time are kept; the lemmas show that they change nothing.
\<close>

subsection \<open>The vector loop for ASCII\<close>

text \<open>
  \<open>pcmpgtb\<close> with zero and \<open>pmovmskb\<close>: all sixteen bytes, as signed numbers, are positive.
\<close>

definition int8 :: "byte \<Rightarrow> int" where
  "int8 c = (if c < 0x80 then uint c else uint c - 256)"

definition all_ascii16 :: "bytes \<Rightarrow> bool" where
  "all_ascii16 v \<longleftrightarrow> list_all (\<lambda>c. int8 c > 0) v"

function ascii_bulk :: "bytes \<Rightarrow> bytes \<times> bytes" where
  "ascii_bulk p =
     (if 16 < length p \<and> all_ascii16 (take 16 p)
      then (case ascii_bulk (drop 16 p) of (q, p') \<Rightarrow> (take 16 p @ q, p'))
      else ([], p))"
  by pat_completeness auto
termination by (relation "measure length") auto

declare ascii_bulk.simps [simp del]

lemma ascii_bulk_split:
  "ascii_bulk p = (q, p') \<Longrightarrow>
     p = q @ p' \<and> (\<forall>c \<in> set q. c < 0x80) \<and> (p \<noteq> [] \<longrightarrow> p' \<noteq> [])"
proof (induction p arbitrary: q p' rule: ascii_bulk.induct)
  case (1 p)
  have ascii: "c < 0x80" if "int8 c > 0" for c
  proof (rule ccontr)
    assume "\<not> c < 0x80"
    moreover have "uint c < 2 ^ LENGTH(8)" by (rule unsigned_less)
    ultimately show False using that by (simp add: int8_def)
  qed
  show ?case
  proof (cases "16 < length p \<and> all_ascii16 (take 16 p)")
    case False
    with "1.prems" show ?thesis by (subst (asm) ascii_bulk.simps) auto
  next
    case True
    obtain q1 p1 where r: "ascii_bulk (drop 16 p) = (q1, p1)" by fastforce
    have eq: "ascii_bulk p = (take 16 p @ q1, p1)" using True r by (subst ascii_bulk.simps) simp
    have IH: "drop 16 p = q1 @ p1" "\<forall>c \<in> set q1. c < 0x80" "p1 \<noteq> []"
      using "1.IH" [OF True r] True by auto
    have "\<forall>c \<in> set (take 16 p). c < 0x80" using True ascii by (auto simp: all_ascii16_def list_all_iff)
    moreover have "p = (take 16 p @ q1) @ p1"
      unfolding append_assoc IH(1) [symmetric] by simp
    ultimately show ?thesis using eq "1.prems" IH by auto
  qed
qed

subsection \<open>Underlong\<close>

lemma ascii_bulk_shorter: "ascii_bulk p = (q, p') \<Longrightarrow> length p' \<le> length p"
  using ascii_bulk_split [of p q p'] by auto

function underlong_loop :: "bytes \<Rightarrow> bytes" where
  "underlong_loop p =
     (case ascii_bulk p of
        (q, []) \<Rightarrow> q
      | (q, c # cs) \<Rightarrow> (case tp_next c cs of (x, cs') \<Rightarrow> q @ tp_bytes x @ underlong_loop cs'))"
  by pat_completeness auto
termination
  by (relation "measure length")
     (auto dest!: sym [of _ "ascii_bulk _"] sym [of _ "tp_next _ _"] ascii_bulk_shorter tp_next_length)

declare underlong_loop.simps [simp del]

definition Underlong :: "allocator \<Rightarrow> cstr \<Rightarrow> bytes option" where
  "Underlong al s = (let p = arg_bytes s in if al (length p * 2 + 1) then Some (underlong_loop p) else None)"

lemma tp_decode_ascii: "\<forall>c \<in> set q. c < 0x80 \<Longrightarrow> tp_decode (q @ p) = map ucast q @ tp_decode p"
  by (induction q) (auto simp: tp_next_def word_less_nat_alt word_le_nat_alt)

lemma ucast_ucast_byte [simp]: "ucast (ucast (c :: byte) :: 32 word) = c"
  by (rule bit_word_eqI) (simp add: bit_simps)

lemma tp_bytes_ascii:
  assumes "c < (0x80 :: byte)" shows "tp_bytes (ucast c) = [c]"
proof -
  have "(ucast c :: wint) \<le> 127" using assms by (simp add: word_less_nat_alt word_le_nat_alt unsigned_ucast_eq take_bit_nat_eq_self)
  then show ?thesis using tp_bytes_short [of "ucast c"] by simp
qed

lemma concat_tp_bytes_ascii: "\<forall>c \<in> set q. c < 0x80 \<Longrightarrow> concat (map tp_bytes (map ucast q)) = q"
  by (induction q) (auto simp: tp_bytes_ascii)

text \<open>The routine re-encodes the code points it finds; the vector loop makes no difference.\<close>

lemma underlong_loop_eq: "underlong_loop p = concat (map tp_bytes (tp_decode p))"
proof (induction p rule: underlong_loop.induct)
  case (1 p)
  obtain q p' where b: "ascii_bulk p = (q, p')" by fastforce
  note sp = ascii_bulk_split [OF b]
  have dec: "tp_decode p = map ucast q @ tp_decode p'" using sp tp_decode_ascii [of q p'] by simp
  show ?case
  proof (cases p')
    case Nil
    then show ?thesis using b sp dec concat_tp_bytes_ascii [of q] by (subst underlong_loop.simps) simp
  next
    case (Cons c cs)
    obtain x cs' where n: "tp_next c cs = (x, cs')" by fastforce
    have "underlong_loop p = q @ tp_bytes x @ underlong_loop cs'"
      using b Cons n by (subst underlong_loop.simps) simp
    also have "underlong_loop cs' = concat (map tp_bytes (tp_decode cs'))"
      using "1.IH" b Cons n by simp
    finally show ?thesis using dec Cons n sp concat_tp_bytes_ascii [of q] by simp
  qed
qed



subsection \<open>Sizes\<close>

definition lead_size_ok :: "byte \<Rightarrow> bool" where
  "lead_size_ok c \<longleftrightarrow>
     (let m = ThomPikeLen c - 1 in
      1 \<le> m \<and> m \<le> 5 \<and> (if m = 5 then unat (ThomPikeByte c) < 4 else unat (ThomPikeByte c) < 2 ^ (6 - m)))"

definition lead_range :: "nat \<Rightarrow> wint \<Rightarrow> nat \<Rightarrow> bool" where
  "lead_range n m k \<longleftrightarrow> ThomPikeLen (of_nat k) = n \<and> ThomPikeByte (of_nat k) < m"

lemma lead_ranges:
  "list_all (lead_range 2 32) [192..<224]" "list_all (lead_range 3 16) [224..<240]"
  "list_all (lead_range 4 8) [240..<248]" "list_all (lead_range 5 4) [248..<252]"
  "list_all (lead_range 6 4) [252..<256]"
  by (simp_all add: upt_rec lead_range_def ThomPikeLen_def ThomPikeByte_def ThomPikeMsb_def bsr_def)

lemma lead_size: assumes "c \<ge> 0xC0" shows "lead_size_ok c"
proof -
  have c: "192 \<le> unat c" using assms by (simp add: word_le_nat_alt)
  have u: "of_nat (unat c) = c" "unat c < 256" using unat_byte_less by simp_all
  consider "unat c < 224" | "224 \<le> unat c" "unat c < 240" | "240 \<le> unat c" "unat c < 248"
    | "248 \<le> unat c" "unat c < 252" | "252 \<le> unat c" by linarith
  then show ?thesis
  proof cases
    case 1
    with list_all_uptD [OF lead_ranges(1) c] u show ?thesis by (simp add: lead_size_ok_def lead_range_def word_less_nat_alt)
  next
    case 2
    with list_all_uptD [OF lead_ranges(2)] u show ?thesis by (force simp: lead_size_ok_def lead_range_def word_less_nat_alt)
  next
    case 3
    with list_all_uptD [OF lead_ranges(3)] u show ?thesis by (force simp: lead_size_ok_def lead_range_def word_less_nat_alt)
  next
    case 4
    with list_all_uptD [OF lead_ranges(4)] u show ?thesis by (force simp: lead_size_ok_def lead_range_def word_less_nat_alt)
  next
    case 5
    with list_all_uptD [OF lead_ranges(5)] u show ?thesis by (force simp: lead_size_ok_def lead_range_def word_less_nat_alt)
  qed
qed

lemma ThomPikeMerge_less:
  assumes "unat a < 2 ^ k" "k + 6 \<le> 32"
  shows "unat (ThomPikeMerge a b) < 2 ^ (k + 6)"
proof -
  have a: "n < k" if "bit a n" for n
  proof -
    have "take_bit k (unat a) = unat a" using assms(1) by (simp add: take_bit_nat_eq_self)
    then have "bit (unat a) n \<Longrightarrow> n < k" by (metis bit_take_bit_iff)
    with that show ?thesis by (simp add: bit_unsigned_iff)
  qed
  have "take_bit (k + 6) (unat (ThomPikeMerge a b)) = unat (ThomPikeMerge a b)"
  proof (rule bit_eqI)
    fix n
    show "bit (take_bit (k + 6) (unat (ThomPikeMerge a b))) n = bit (unat (ThomPikeMerge a b)) n"
      using a [of "n - 6"] unfolding ThomPikeMerge_def mask_3F
      by (auto simp: bit_simps)
  qed
  then show ?thesis by (simp add: take_bit_nat_eq_self_iff)
qed

lemma tp_merge_less:
  "tp_merge m a bs = Some (x, bs') \<Longrightarrow> unat a < 2 ^ k \<Longrightarrow> k + 6 * m \<le> 32 \<Longrightarrow>
   unat x < 2 ^ (k + 6 * m) \<and> length bs = m + length bs'"
proof (induction m a bs arbitrary: k rule: tp_merge.induct)
  case (3 m a b bs)
  then have "unat (ThomPikeMerge a b) < 2 ^ (k + 6)" by (intro ThomPikeMerge_less) auto
  with 3 "3.IH" [of "k + 6"] show ?case by (auto simp: add.assoc split: if_splits)
qed auto

lemma length_tp_bytes: "length (tp_bytes x) \<le> 6"
  using tp_bytes_long [of x] by (cases "x \<le> 127") (auto simp: tp_bytes_short)

lemma length_tp_bytes_less:
  assumes "unat x < 2 ^ (5 * n + 6)" "1 \<le> n" "n \<le> 4" shows "length (tp_bytes x) \<le> n + 1"
proof (cases "x \<le> 127")
  case True
  then show ?thesis by (simp add: tp_bytes_short)
next
  case False
  then have "x \<noteq> 0" by auto
  have "(2 :: nat) ^ bsr x < 2 ^ (5 * n + 6)"
    using bsr_log_bounds [OF \<open>x \<noteq> 0\<close>] assms(1) by linarith
  then have b: "bsr x < 5 * n + 6" by simp
  have tab: "list_all (\<lambda>b. fst (kTpEnc ! (b - 7)) \<le> 1) [7..<11]"
    "list_all (\<lambda>b. fst (kTpEnc ! (b - 7)) \<le> 2) [7..<16]"
    "list_all (\<lambda>b. fst (kTpEnc ! (b - 7)) \<le> 3) [7..<21]"
    "list_all (\<lambda>b. fst (kTpEnc ! (b - 7)) \<le> 4) [7..<26]"
    by (simp_all add: upt_rec kTpEnc_def)
  have "n = 1 \<or> n = 2 \<or> n = 3 \<or> n = 4" using assms(2,3) by linarith
  then have "fst (kTpEnc ! (bsr x - 7)) \<le> n"
    using b list_all_uptD [OF tab(1) bsr_bounds(1) [OF False]]
      list_all_uptD [OF tab(2) bsr_bounds(1) [OF False]]
      list_all_uptD [OF tab(3) bsr_bounds(1) [OF False]]
      list_all_uptD [OF tab(4) bsr_bounds(1) [OF False]]
    by (elim disjE) simp_all
  then show ?thesis using tp_bytes_long [OF False] by auto
qed

lemma tp_next_size:
  assumes "tp_next c cs = (x, cs')"
  shows "length (tp_bytes x) + 2 * length cs' \<le> 2 * length (c # cs)"
proof (cases "cs' = cs \<and> x = ucast c")
  case True
  have "unat c < 256" by (rule unat_byte_less)
  then have "unat (ucast c :: wint) < 2 ^ 11" by (simp add: unsigned_ucast_eq take_bit_nat_eq_self)
  then have "length (tp_bytes x) \<le> 2" using True length_tp_bytes_less [of x 1] by simp
  with True show ?thesis by simp
next
  case False
  let ?m = "ThomPikeLen c - 1"
  have m: "c \<ge> 0xC0" "tp_merge ?m (ThomPikeByte c) cs = Some (x, cs')"
    using False assms by (auto simp: tp_next_def Let_def split: if_splits option.splits)
  note ls = lead_size [OF m(1), unfolded lead_size_ok_def Let_def]
  show ?thesis
  proof (cases "?m = 5")
    case True
    then have "unat (ThomPikeByte c) < 2 ^ 2" using ls by simp
    with tp_merge_less [OF m(2), of 2] True length_tp_bytes [of x] show ?thesis by simp
  next
    case False
    then have "unat x < 2 ^ (6 - ?m + 6 * ?m) \<and> length cs = ?m + length cs'"
      using tp_merge_less [OF m(2), of "6 - ?m"] ls by auto
    moreover have "6 - ?m + 6 * ?m = 5 * ?m + 6" using ls by auto
    ultimately show ?thesis using length_tp_bytes_less [of x ?m] ls False by simp
  qed
qed

text \<open>It never writes more than the \<open>2n\<close> bytes it asked for.\<close>

lemma length_underlong: "length (underlong_loop p) \<le> 2 * length p"
  unfolding underlong_loop_eq
proof (induction p rule: tp_decode.induct)
  case (2 c cs)
  obtain x cs' where n: "tp_next c cs = (x, cs')" by fastforce
  with 2 [OF n [symmetric]] tp_next_size [OF n] show ?case by simp
qed simp

subsection \<open>Control codes\<close>

definition kControlWs :: "32 word" where "kControlWs = 1"
definition kControlC0 :: "32 word" where "kControlC0 = 2"
definition kControlC1 :: "32 word" where "kControlC1 = 4"

text \<open>The table \<open>t\<close> that \<open>HasControlCodes\<close> and \<open>EncodeLatin1\<close> fill in; the last assignment wins.\<close>

definition control_table :: "32 word \<Rightarrow> wint \<Rightarrow> bool" where
  "control_table f c =
     (if c = 0x09 \<or> c = 0x0D \<or> c = 0x0A \<or> c = 0x0B then f AND kControlWs \<noteq> 0
      else f AND kControlC0 \<noteq> 0 \<and> (c < 0x20 \<or> c = 0x7F) \<or>
           f AND kControlC1 \<noteq> 0 \<and> 0x80 \<le> c \<and> c < 0xA0)"

function control_loop :: "32 word \<Rightarrow> nat \<Rightarrow> bytes \<Rightarrow> nat option" where
  "control_loop f g [] = None"
| "control_loop f g (c # cs) =
     (case tp_next c cs of
        (x, cs') \<Rightarrow>
          if x < 256 \<and> control_table f x then Some g
          else control_loop f (g + (length (c # cs) - length cs')) cs')"
  by pat_completeness auto
termination
  by (relation "measure (\<lambda>(f, g, p). length p)")
     (auto dest!: sym [of _ "tp_next _ _"] tp_next_length)

text \<open>\<open>None\<close> is \<open>-1\<close>.\<close>

definition HasControlCodes :: "cstr \<Rightarrow> 32 word \<Rightarrow> nat option" where
  "HasControlCodes s f = control_loop f 0 (arg_bytes s)"

lemma control_loop_None:
  "control_loop f g p = None \<longleftrightarrow> (\<forall>x \<in> set (tp_decode p). \<not> (x < 256 \<and> control_table f x))"
  by (induction f g p rule: control_loop.induct) (auto split: prod.splits)

subsection \<open>VisualizeControlCodes\<close>

definition viz_remap :: "wint \<Rightarrow> wint" where
  "viz_remap x =
     (if x = 0x2028 then 0x21B5 else if x = 0x2029 then 0xB6
      else if x = 0x202A then 0x27EB else if x = 0x202B then 0x27EA
      else if x = 0x202D then 0x276F else if x = 0x202E then 0x276E
      else if x = 0x2066 then 0x27E9 else if x = 0x2067 then 0x27E8
      else if x = 0x2068 then 0x29FD else if x = 0x202C then 0x21EE
      else if x = 0x2069 then 0x21EF else x)"

definition hexdigits :: bytes where
  "hexdigits = str ''0123456789abcdef''"

definition viz_char :: "wint \<Rightarrow> bytes" where
  "viz_char x0 =
     (let x = viz_remap x0 in
      if 0x80 \<le> x \<and> x < 0xA0 then
        [0x5C, 0x75, 0x30, 0x30, hexdigits ! unat (drop_bit 4 (x AND 0xF0)), hexdigits ! unat (x AND 0x0F)]
      else
        (let x = (if x < 0x20 then
                    (if x \<noteq> 0x09 \<and> x \<noteq> 0x0D \<and> x \<noteq> 0x0A then x + 0x2400 else x)
                  else if x = 0x7F then 0x2421
                  else x)
         in tp_bytes x))"

function viz_loop :: "bytes \<Rightarrow> bytes" where
  "viz_loop [] = []"
| "viz_loop (c # cs) = (case tp_next c cs of (x, cs') \<Rightarrow> viz_char x @ viz_loop cs')"
  by pat_completeness auto
termination
  by (relation "measure length") (auto dest!: sym [of _ "tp_next _ _"] tp_next_length)

definition VisualizeControlCodes :: "allocator \<Rightarrow> cstr \<Rightarrow> bytes option" where
  "VisualizeControlCodes al s =
     (let p = arg_bytes s in if al (length p * 6 + 1) then Some (viz_loop p) else None)"

lemma viz_loop_eq: "viz_loop p = concat (map viz_char (tp_decode p))"
  by (induction p rule: viz_loop.induct) (auto split: prod.splits)

text \<open>The code points a character is shown as.\<close>

definition viz_codes :: "wint \<Rightarrow> wint list" where
  "viz_codes x0 =
     (let x = viz_remap x0 in
      if 0x80 \<le> x \<and> x < 0xA0 then
        map ucast [0x5C, 0x75, 0x30, 0x30, hexdigits ! unat (drop_bit 4 (x AND 0xF0)), hexdigits ! unat (x AND 0x0F)]
      else [if x < 0x20 then (if x \<noteq> 0x09 \<and> x \<noteq> 0x0D \<and> x \<noteq> 0x0A then x + 0x2400 else x)
            else if x = 0x7F then 0x2421 else x])"

lemma hexdigits_ascii:
  assumes "k < 16" shows "hexdigits ! k < 0x80" "0x20 \<le> hexdigits ! k" "hexdigits ! k \<noteq> 0x7F"
proof -
  have "list_all (\<lambda>c. c < 0x80 \<and> 0x20 \<le> c \<and> c \<noteq> 0x7F) hexdigits" "length hexdigits = 16"
    by (simp_all add: hexdigits_def str_def)
  then show "hexdigits ! k < 0x80" "0x20 \<le> hexdigits ! k" "hexdigits ! k \<noteq> 0x7F"
    using assms by (simp_all add: list_all_length)
qed

lemma nibble_less: "unat (x AND 0x0F) < 16" for x :: wint
proof -
  have "(0x0F :: wint) = mask 4" by (simp add: mask_eq_exp_minus_1)
  then have "x AND 0x0F = take_bit 4 x" by (simp add: take_bit_eq_mask)
  then show ?thesis using take_bit_nat_less_exp [of 4 "unat x"] by (simp add: unsigned_take_bit_eq)
qed

lemma high_nibble: "drop_bit 4 (x AND 0xF0) = drop_bit 4 x AND 0x0F" for x :: wint
  by simp

lemma viz_char_codes: "viz_char x = concat (map tp_bytes (viz_codes x))"
  using hexdigits_ascii [OF nibble_less, of "viz_remap x"]
    hexdigits_ascii [OF nibble_less, of "drop_bit 4 (viz_remap x)"]
  by (simp add: viz_char_def viz_codes_def Let_def tp_bytes_ascii tp_bytes_short)

lemma shown_clean:
  "\<not> (0x80 \<le> x \<and> x < 0xA0) \<Longrightarrow>
   y = (if x < 0x20 then (if x \<noteq> 0x09 \<and> x \<noteq> 0x0D \<and> x \<noteq> 0x0A then x + 0x2400 else x)
        else if x = 0x7F then 0x2421 else x) \<Longrightarrow>
   \<not> (y < 256 \<and> control_table (kControlC0 OR kControlC1) y)"
  by (auto simp: control_table_def kControlC0_def kControlC1_def kControlWs_def word_less_nat_alt
                 word_le_nat_alt unat_word_ariths)

lemma printable_clean:
  "0x20 \<le> c \<Longrightarrow> c < 0x80 \<Longrightarrow> c \<noteq> 0x7F \<Longrightarrow>
   \<not> control_table (kControlC0 OR kControlC1) (ucast (c :: byte))"
  by (auto simp: control_table_def kControlC0_def kControlC1_def kControlWs_def word_less_nat_alt
                 word_le_nat_alt unsigned_ucast_eq word_unat_eq_iff take_bit_nat_eq_self)

lemma viz_codes_clean:
  "\<forall>y \<in> set (viz_codes x). \<not> (y < 256 \<and> control_table (kControlC0 OR kControlC1) y)"
proof (cases "0x80 \<le> viz_remap x \<and> viz_remap x < 0xA0")
  case True
  then show ?thesis
    using hexdigits_ascii [OF nibble_less, of "viz_remap x"]
      hexdigits_ascii [OF nibble_less, of "drop_bit 4 (viz_remap x)"]
    unfolding viz_codes_def Let_def high_nibble
    by (simp add: printable_clean)
       (simp add: control_table_def kControlC0_def kControlC1_def kControlWs_def)
next
  case False
  then show ?thesis using shown_clean [OF False refl] unfolding viz_codes_def Let_def by auto
qed

lemma concat_map_codes: "concat (map (\<lambda>x. concat (map f (g x))) xs) = concat (map f (concat (map g xs)))"
  by (induction xs) auto

text \<open>(C18) \<open>VisualizeControlCodes\<close> does its job: in what it returns, \<open>HasControlCodes\<close> finds neither C0
  nor C1 control codes (white space is allowed, as its caller asks for by leaving out \<open>kControlWs\<close>).\<close>

theorem VisualizeControlCodes_clean:
  assumes "VisualizeControlCodes al s = Some q"
  shows "HasControlCodes (Buf q) (kControlC0 OR kControlC1) = None"
proof -
  have "q = concat (map tp_bytes (concat (map viz_codes (tp_decode (arg_bytes s)))))"
    using assms
    by (auto simp: VisualizeControlCodes_def Let_def viz_loop_eq concat_map_codes [symmetric]
             viz_char_codes [symmetric] split: if_splits)
  then have "tp_decode q = concat (map viz_codes (tp_decode (arg_bytes s)))"
    by (simp only: thompson_pike.dec_enc)
  then show ?thesis using viz_codes_clean by (auto simp: HasControlCodes_def control_loop_None)
qed

theorem VisualizeControlCodes_clean_witness:
  "VisualizeControlCodes (\<lambda>_. True) (Buf [0x9B]) = Some ([0x5C] @ str ''u009b'') \<and>
   HasControlCodes (Buf ([0x5C] @ str ''u009b'')) (kControlC0 OR kControlC1) = None"
proof -
  have "VisualizeControlCodes (\<lambda>_. True) (Buf [0x9B]) = Some ([0x5C] @ str ''u009b'')"
    by (simp add: VisualizeControlCodes_def viz_char_def viz_remap_def tp_next_def hexdigits_def str_def)
  then show ?thesis using VisualizeControlCodes_clean by blast
qed

end
