(* ===== verification/Http_Text.thy ===== *)
theory Http_Text
  imports Http_Escape
begin

text \<open>
  More text routines of \<open>net/http\<close>: entities (\<open>escapehtml.c\<close>), JavaScript literals
  (\<open>escapejsstringliteral.c\<close>), ISO-8859-1 in both directions (\<open>encodelatin1.c\<close>, \<open>decodelatin1.c\<close>), header
  values (\<open>encodehttpheadervalue.c\<close>) and indentation (\<open>indentlines.c\<close>).  Reference decoders written
  here (\<open>html_unescape\<close>, \<open>js_unescape\<close>) say what the escaped text means.
\<close>

subsection \<open>EscapeHtml\<close>

definition html_char :: "byte \<Rightarrow> bytes" where
  "html_char c =
     (if c = 0x26 then str ''&amp;''
      else if c = 0x3C then str ''&lt;''
      else if c = 0x3E then str ''&gt;''
      else if c = 0x22 then str ''&quot;''
      else if c = 0x27 then str ''&#39;''
      else [c])"

primrec html_loop :: "bytes \<Rightarrow> bytes" where
  "html_loop [] = []"
| "html_loop (c # cs) = html_char c @ html_loop cs"

definition EscapeHtml :: "allocator \<Rightarrow> cstr \<Rightarrow> bytes option" where
  "EscapeHtml al s = (let p = arg_bytes s in if al (length p * 6 + 1) then Some (html_loop p) else None)"

text \<open>What the five entities stand for.\<close>

definition entities :: "(bytes \<times> byte) list" where
  "entities = [(str ''amp;'', 0x26), (str ''lt;'', 0x3C), (str ''gt;'', 0x3E), (str ''quot;'', 0x22),
               (str ''#39;'', 0x27)]"

definition entity_at :: "bytes \<Rightarrow> (byte \<times> bytes) option" where
  "entity_at cs =
     (case find (\<lambda>(e, c). take (length e) cs = e) entities of
        Some (e, c) \<Rightarrow> Some (c, drop (length e) cs) | None \<Rightarrow> None)"

lemma entity_at_shorter: "entity_at cs = Some (c, cs') \<Longrightarrow> length cs' \<le> length cs"
  by (auto simp: entity_at_def split: option.splits)

function html_unescape :: "bytes \<Rightarrow> bytes" where
  "html_unescape [] = []"
| "html_unescape (c # cs) =
     (if c = 0x26 then
        (case entity_at cs of Some (c', cs') \<Rightarrow> c' # html_unescape cs' | None \<Rightarrow> c # html_unescape cs)
      else c # html_unescape cs)"
  by pat_completeness auto
termination
  by (relation "measure length") (auto dest!: entity_at_shorter)

lemma html_unescape_char: "html_unescape (html_char c @ cs) = c # html_unescape cs"
  by (simp add: html_char_def str_def entity_at_def entities_def)

lemma html_unescape_loop: "html_unescape (html_loop p) = p"
  by (induction p) (simp_all add: html_unescape_char)

interpretation html: codec "\<lambda>_. True" html_loop html_unescape "\<lambda>p. p"
  by unfold_locales (rule html_unescape_loop)

lemma length_html_loop: "length (html_loop p) \<le> 6 * length p"
  by (induction p) (auto simp: html_char_def str_def)

text \<open>(C20) \<open>EscapeHtml\<close> leaves no angle bracket and no quote in the text, loses nothing (reading the five
  entities back gives the input), and stays within the six bytes per character it allocates.\<close>

theorem EscapeHtml_safe:
  assumes "EscapeHtml al s = Some q"
  shows "set q \<inter> {0x3C, 0x3E, 0x22, 0x27} = {} \<and> html_unescape q = arg_bytes s \<and>
         length q \<le> length (arg_bytes s) * 6"
proof -
  have q: "q = html_loop (arg_bytes s)" using assms by (auto simp: EscapeHtml_def Let_def split: if_splits)
  have "set (html_loop p) \<inter> {0x3C, 0x3E, 0x22, 0x27} = {}" for p
    by (induction p) (auto simp: html_char_def str_def split: if_splits)
  then show ?thesis
    using length_html_loop [of "arg_bytes s"] html.dec_enc by (simp add: q mult.commute)
qed

theorem EscapeHtml_safe_witness:
  "EscapeHtml (\<lambda>_. True) (Buf (str ''a<b'')) = Some (str ''a&lt;b'') \<and>
   html_unescape (str ''a&lt;b'') = str ''a<b''"
proof -
  have e: "EscapeHtml (\<lambda>_. True) (Buf (str ''a<b'')) = Some (str ''a&lt;b'')"
    by (simp add: EscapeHtml_def str_def html_char_def)
  then show ?thesis using EscapeHtml_safe [OF e] by simp
qed

subsection \<open>ISO-8859-1\<close>

definition latin1_char :: "byte \<Rightarrow> bytes" where
  "latin1_char c = (if c < 0x80 then [c] else [0xC0 OR drop_bit 6 c, 0x80 OR (c AND 0x3F)])"

function latin1_decode_loop :: "bytes \<Rightarrow> bytes" where
  "latin1_decode_loop p =
     (case ascii_bulk p of
        (q, []) \<Rightarrow> q
      | (q, c # cs) \<Rightarrow> q @ latin1_char c @ latin1_decode_loop cs)"
  by pat_completeness auto
termination
  by (relation "measure length") (auto dest!: sym [of _ "ascii_bulk _"] ascii_bulk_shorter)

declare latin1_decode_loop.simps [simp del]

definition DecodeLatin1 :: "allocator \<Rightarrow> cstr \<Rightarrow> bytes option" where
  "DecodeLatin1 al s =
     (let p = arg_bytes s in if al (length p * 2 + 1) then Some (latin1_decode_loop p) else None)"

fun latin1_encode_loop :: "32 word \<Rightarrow> bytes \<Rightarrow> bytes option" where
  "latin1_encode_loop f [] = Some []"
| "latin1_encode_loop f (c # cs) =
     (if c \<ge> 0xC0 then
        if c \<le> 0xC3 \<and> cs \<noteq> [] \<and> hd cs AND 0xC0 = 0x80 then
          (let c' = push_bit 6 (c AND 0x1F) OR (hd cs AND 0x3F) in
           if control_table f (ucast c') then None
           else map_option ((#) c') (latin1_encode_loop f (tl cs)))
        else None
      else if control_table f (ucast c) then None
      else map_option ((#) c) (latin1_encode_loop f cs))"

definition EncodeLatin1 :: "allocator \<Rightarrow> cstr \<Rightarrow> 32 word \<Rightarrow> errno + bytes" where
  "EncodeLatin1 al s f =
     (let p = arg_bytes s in
      if al (length p + 1) then
        (case latin1_encode_loop f p of Some q \<Rightarrow> Inr q | None \<Rightarrow> Inl EILSEQ)
      else Inl ENOMEM)"

lemma latin1_decode_loop_eq: "latin1_decode_loop p = concat (map latin1_char p)"
proof (induction p rule: latin1_decode_loop.induct)
  case (1 p)
  obtain q p' where b: "ascii_bulk p = (q, p')" by fastforce
  note sp = ascii_bulk_split [OF b]
  have "\<forall>c \<in> set q. c < 0x80 \<Longrightarrow> concat (map latin1_char q) = q" for q
    by (induction q) (auto simp: latin1_char_def)
  with 1 b sp show ?case
    by (cases p') (subst latin1_decode_loop.simps, simp)+
qed

text \<open>The two bytes of a character above ASCII, checked for each of them.\<close>

definition latin1_pair_ok :: "nat \<Rightarrow> bool" where
  "latin1_pair_ok k \<longleftrightarrow>
     (let c = of_nat k :: byte; a = 0xC0 OR drop_bit 6 c; b = 0x80 OR (c AND 0x3F) in
      0xC0 \<le> a \<and> a \<le> 0xC3 \<and> b AND 0xC0 = 0x80 \<and> push_bit 6 (a AND 0x1F) OR (b AND 0x3F) = c)"

lemma latin1_pairs: "list_all latin1_pair_ok [128..<256]"
  by (simp add: upt_rec latin1_pair_ok_def)

lemma latin1_pair: assumes "\<not> c < (0x80 :: byte)" shows "latin1_pair_ok (unat c)"
  using assms unat_byte_less [of c]
  by (intro list_all_uptD [OF latin1_pairs]) (simp_all add: word_less_nat_alt)

lemma no_controls: "\<not> control_table 0 x"
  by (simp add: control_table_def)

lemma latin1_encode_char:
  "latin1_encode_loop 0 (latin1_char c @ cs) = map_option ((#) c) (latin1_encode_loop 0 cs)"
proof (cases "c < 0x80")
  case True
  then have "\<not> 0xC0 \<le> c" by (simp add: word_less_nat_alt word_le_nat_alt)
  with True show ?thesis by (simp add: latin1_char_def no_controls)
next
  case False
  with latin1_pair [OF False] show ?thesis
    by (simp add: latin1_char_def latin1_pair_ok_def no_controls Let_def)
qed

lemma latin1_encode_decode: "latin1_encode_loop 0 (concat (map latin1_char p)) = Some p"
  by (induction p) (simp_all add: latin1_encode_char)

interpretation latin1: codec "\<lambda>_. True" latin1_decode_loop "latin1_encode_loop 0" Some
  by unfold_locales (simp add: latin1_decode_loop_eq latin1_encode_decode)

text \<open>(C21) Text in ISO-8859-1 survives the way to UTF-8 and back: \<open>EncodeLatin1\<close> with no flags inverts
  \<open>DecodeLatin1\<close>.\<close>

theorem EncodeLatin1_DecodeLatin1:
  assumes "DecodeLatin1 al s = Some q"
  shows "EncodeLatin1 (\<lambda>_. True) (Buf q) 0 = Inr (arg_bytes s)"
  using assms latin1.dec_enc
  by (auto simp: DecodeLatin1_def EncodeLatin1_def Let_def split: if_splits)

theorem EncodeLatin1_DecodeLatin1_witness:
  "DecodeLatin1 (\<lambda>_. True) (Buf [0x61, 0xE9]) = Some [0x61, 0xC3, 0xA9] \<and>
   EncodeLatin1 (\<lambda>_. True) (Buf [0x61, 0xC3, 0xA9]) 0 = Inr [0x61, 0xE9]"
proof -
  have d: "DecodeLatin1 (\<lambda>_. True) (Buf [0x61, 0xE9]) = Some [0x61, 0xC3, 0xA9]"
    by (simp add: DecodeLatin1_def latin1_decode_loop_eq latin1_char_def)
  then show ?thesis using EncodeLatin1_DecodeLatin1 [OF d] by simp
qed

text \<open>What \<open>EncodeLatin1\<close> accepts contains none of the characters that its flags forbid.\<close>

lemma latin1_encode_controls:
  "latin1_encode_loop f p = Some q \<Longrightarrow> \<forall>c \<in> set q. \<not> control_table f (ucast c)"
  by (induction f p arbitrary: q rule: latin1_encode_loop.induct)
     (auto simp: Let_def split: if_splits)

subsection \<open>EncodeHttpHeaderValue\<close>

text \<open>
  The loop, with the flag \<open>t\<close> that says whether something other than white space has been seen.
\<close>

definition header_code :: "byte \<Rightarrow> bytes \<Rightarrow> wint \<times> bytes" where
  "header_code c cs =
     (if c \<ge> 0xC0 \<and> cs \<noteq> [] \<and> ThomPikeCont (hd cs) then
        if ThomPikeLen c = 2 then (ThomPikeMerge (ThomPikeByte c) (hd cs), tl cs) else (0, cs)
      else (ucast c, cs))"

lemma header_code_shorter: "header_code c cs = (x, cs') \<Longrightarrow> length cs' \<le> length cs"
  by (auto simp: header_code_def split: if_splits)

function header_loop :: "bool \<Rightarrow> bytes \<Rightarrow> bytes option" where
  "header_loop t [] = Some []"
| "header_loop t (c # cs) =
     (case header_code c cs of
        (x, cs') \<Rightarrow>
          if \<not> t \<and> (x = 0x20 \<or> x = 0x09) then header_loop t cs'
          else if (0x20 \<le> x \<and> x \<le> 0x7E) \<or> (0xA0 \<le> x \<and> x \<le> 0xFF) \<or> x = 0x09
          then map_option ((#) (ucast x)) (header_loop True cs')
          else None)"
  by pat_completeness auto
termination
  by (relation "measure (\<lambda>(t, p). length p)") (auto dest!: sym [of _ "header_code _ _"] header_code_shorter)

text \<open>\<open>while (q > r && (q[-1] == ' ' || q[-1] == '\t')) --q;\<close>\<close>

definition trim_trailing :: "bytes \<Rightarrow> bytes" where
  "trim_trailing q = rev (dropWhile (\<lambda>c. c = ch_SP \<or> c = ch_HT) (rev q))"

definition EncodeHttpHeaderValue :: "allocator \<Rightarrow> cstr \<Rightarrow> errno + bytes" where
  "EncodeHttpHeaderValue al s =
     (let p = arg_bytes s in
      if al (length p + 1) then
        (case header_loop False p of Some q \<Rightarrow> Inr (trim_trailing q) | None \<Rightarrow> Inl EILSEQ)
      else Inl ENOMEM)"

text \<open>The bytes that may occur in a header value, as characters and as code points.\<close>

definition header_byte :: "byte \<Rightarrow> bool" where
  "header_byte c \<longleftrightarrow> (0x20 \<le> c \<and> c \<le> 0x7E) \<or> 0xA0 \<le> c \<or> c = 0x09"

definition header_code_ok :: "wint \<Rightarrow> bool" where
  "header_code_ok x \<longleftrightarrow> (0x20 \<le> x \<and> x \<le> 0x7E) \<or> (0xA0 \<le> x \<and> x \<le> 0xFF) \<or> x = 0x09"

lemma header_byte_code: "header_code_ok x \<Longrightarrow> header_byte (ucast x)"
  by (auto simp: header_code_ok_def header_byte_def word_le_nat_alt unsigned_ucast_eq word_unat_eq_iff
                 take_bit_nat_eq_self)

lemma header_code_back:
  "header_code_ok x \<Longrightarrow> (ucast x = (0x20 :: byte) \<longleftrightarrow> x = 0x20) \<and> (ucast x = (0x09 :: byte) \<longleftrightarrow> x = 0x09)"
  by (auto simp: header_code_ok_def word_le_nat_alt unsigned_ucast_eq word_unat_eq_iff
                 take_bit_nat_eq_self)

lemma header_loop_Cons:
  "header_loop t (c # cs) =
     (case header_code c cs of
        (x, cs') \<Rightarrow>
          if \<not> t \<and> (x = 0x20 \<or> x = 0x09) then header_loop t cs'
          else if header_code_ok x then map_option ((#) (ucast x)) (header_loop True cs')
          else None)"
  by (simp add: header_code_ok_def [abs_def] cong: if_cong)

lemma header_loop_bytes: "header_loop t p = Some q \<Longrightarrow> list_all header_byte q"
proof (induction t p arbitrary: q rule: header_loop.induct)
  case (2 t c cs)
  obtain x cs' where x: "header_code c cs = (x, cs')" by fastforce
  show ?case
  proof (cases "\<not> t \<and> (x = 0x20 \<or> x = 0x09)")
    case True
    with 2(1) [OF x [symmetric] True] 2(3) x show ?thesis by (simp add: header_loop_Cons del: header_loop.simps)
  next
    case False
    with 2(3) x obtain z where ok: "header_code_ok x" and z: "header_loop True cs' = Some z" "q = ucast x # z"
      by (auto simp: header_loop_Cons simp del: header_loop.simps split: if_splits)
    with 2(2) [OF x [symmetric] False] show ?thesis
      by (simp add: header_code_ok_def [symmetric] header_byte_code)
  qed
qed simp

lemma header_loop_first:
  "header_loop t p = Some (c # q) \<Longrightarrow> \<not> t \<Longrightarrow> c \<noteq> 0x20 \<and> c \<noteq> 0x09"
proof (induction t p arbitrary: c q rule: header_loop.induct)
  case (2 t c0 cs)
  obtain x cs' where x: "header_code c0 cs = (x, cs')" by fastforce
  show ?case
  proof (cases "x = 0x20 \<or> x = 0x09")
    case True
    with 2 x show ?thesis by (auto simp: header_loop_Cons simp del: header_loop.simps)
  next
    case False
    with 2 x have "header_code_ok x" "c = ucast x"
      by (auto simp: header_loop_Cons simp del: header_loop.simps split: if_splits)
    with header_code_back [of x] False show ?thesis by simp
  qed
qed simp

lemma trim_trailing_last:
  "trim_trailing q \<noteq> [] \<Longrightarrow> last (trim_trailing q) \<noteq> ch_SP \<and> last (trim_trailing q) \<noteq> ch_HT"
  using hd_dropWhile [of "\<lambda>c. c = ch_SP \<or> c = ch_HT" "rev q"]
  by (simp add: trim_trailing_def last_rev)

lemma trim_trailing_prefix: "\<exists>w. q = trim_trailing q @ w"
proof -
  have "rev q = takeWhile (\<lambda>c. c = ch_SP \<or> c = ch_HT) (rev q) @ dropWhile (\<lambda>c. c = ch_SP \<or> c = ch_HT) (rev q)"
    by simp
  then have "q = trim_trailing q @ rev (takeWhile (\<lambda>c. c = ch_SP \<or> c = ch_HT) (rev q))"
    unfolding trim_trailing_def by (metis rev_append rev_rev_ident)
  then show ?thesis by blast
qed

lemma EncodeHttpHeaderValue_result:
  assumes "EncodeHttpHeaderValue al s = Inr q"
  shows "list_all header_byte q" "q = [] \<or> hd q \<notin> {ch_SP, ch_HT} \<and> last q \<notin> {ch_SP, ch_HT}"
proof -
  obtain z where z: "header_loop False (arg_bytes s) = Some z" "q = trim_trailing z"
    using assms by (auto simp: EncodeHttpHeaderValue_def Let_def split: if_splits option.splits)
  have l: "q \<noteq> [] \<Longrightarrow> last q \<notin> {ch_SP, ch_HT}" using trim_trailing_last [of z] z(2) by auto
  obtain w where w: "z = q @ w" using trim_trailing_prefix [of z] z(2) by auto
  have h: "header_loop False (arg_bytes s) = Some (q @ w)" using z(1) w by simp
  show "list_all header_byte q" using header_loop_bytes [OF h] by simp
  show "q = [] \<or> hd q \<notin> {ch_SP, ch_HT} \<and> last q \<notin> {ch_SP, ch_HT}"
  proof (cases q)
    case (Cons c q')
    then show ?thesis using header_loop_first [of False "arg_bytes s" c "q' @ w"] h l by simp
  qed simp
qed

subsection \<open>IndentLines\<close>

text \<open>
  The loop, from the current \<open>p\<close> with \<open>t\<close> bytes written; it goes on while a line feed was found.
\<close>

function indent_loop :: "allocator \<Rightarrow> nat \<Rightarrow> bytes \<Rightarrow> bytes \<Rightarrow> bytes option" where
  "indent_loop al j r p =
     (let l = takeWhile (\<lambda>c. c \<noteq> ch_LF) p;
          found = (length l < length p);
          m = (if found then length l + 1 else length p);
          a = (if found then (if hd p \<noteq> ch_CR \<and> hd p \<noteq> ch_LF then j else 0)
               else if length p \<noteq> 0 then j else 0)
      in if al (length r + a + m + 1) then
           (let r' = r @ replicate a ch_SP @ take m p in
            if found then indent_loop al j r' (drop m p) else Some r')
         else None)"
  by pat_completeness auto
termination by (relation "measure (\<lambda>(al, j, r, p). length p)") auto

declare indent_loop.simps [simp del]

definition IndentLines :: "allocator \<Rightarrow> cstr \<Rightarrow> nat \<Rightarrow> bytes option" where
  "IndentLines al s j = indent_loop al j [] (arg_bytes s)"

text \<open>The lines of a text, each with its line feed, and what becomes of one.\<close>

definition indent_line :: "nat \<Rightarrow> bytes \<Rightarrow> bytes" where
  "indent_line j l = (if l = [] \<or> hd l = ch_LF \<or> hd l = ch_CR \<and> ch_LF \<in> set l then l else replicate j ch_SP @ l)"

function split_lines :: "bytes \<Rightarrow> bytes list" where
  "split_lines p =
     (let l = takeWhile (\<lambda>c. c \<noteq> ch_LF) p in
      if length l < length p then take (length l + 1) p # split_lines (drop (length l + 1) p) else [p])"
  by pat_completeness auto
termination by (relation "measure length") auto

declare split_lines.simps [simp del]

lemma takeWhile_LF: "length (takeWhile (\<lambda>c. c \<noteq> ch_LF) p) < length p \<longleftrightarrow> ch_LF \<in> set p"
  by (induction p) auto

lemma take_LF: "ch_LF \<in> set p \<Longrightarrow> ch_LF \<in> set (take (Suc (length (takeWhile (\<lambda>c. c \<noteq> ch_LF) p))) p)"
  by (induction p) auto

lemma indent_loop_lines:
  "indent_loop (\<lambda>_. True) j r p = Some (r @ concat (map (indent_line j) (split_lines p)))"
proof (induction "\<lambda>_::nat. True" j r p rule: indent_loop.induct)
  case (1 j r p)
  let ?m = "Suc (length (takeWhile (\<lambda>c. c \<noteq> ch_LF) p))"
  show ?case
  proof (cases "ch_LF \<in> set p")
    case True
    then have "p \<noteq> []" by auto
    then have "hd (take ?m p) = hd p" by (cases p) auto
    then have "indent_line j (take ?m p) =
        replicate (if hd p \<noteq> ch_CR \<and> hd p \<noteq> ch_LF then j else 0) ch_SP @ take ?m p"
      using take_LF [OF True] \<open>p \<noteq> []\<close> by (auto simp: indent_line_def)
    with True 1 show ?thesis
      by (subst indent_loop.simps, subst split_lines.simps) (simp add: Let_def takeWhile_LF)
  next
    case False
    then show ?thesis
      by (subst indent_loop.simps, subst split_lines.simps)
         (cases p, auto simp: Let_def takeWhile_LF indent_line_def)
  qed
qed

end
