(* ===== verification/Http_Url.thy ===== *)
theory Http_Url
  imports Http_Tables
begin

text \<open>
  URLs: the parser of \<open>net/http/parseurl.c\<close> (\<open>ParseUrl\<close>, \<open>ParseParams\<close>, \<open>ParseHost\<close>), the printer of
  \<open>net/http/encodeurl.c\<close> and the percent escaping of \<open>net/http/escapeurl.c\<close>, \<open>escapeurlview.c\<close> and the
  \<open>escape*.c\<close> files that fix its table.

  The parser writes all decoded text into one buffer and never overwrites it, so a \<open>struct UrlView\<close> is
  the bytes it designates, \<open>None\<close> when its pointer is \<open>NULL\<close>.  In \<open>struct UrlParser\<close> the members \<open>s\<close>,
  \<open>i\<close> and \<open>n\<close> are kept as the bytes still to be read and the number of those already read; inputs are
  taken to be shorter than \<open>2\<^sup>3\<^sup>2\<close> bytes, the range of \<open>u.n\<close>.
\<close>

subsection \<open>Data\<close>

definition kUrlPlus :: "32 word" where "kUrlPlus = 1"
definition kUrlLatin1 :: "32 word" where "kUrlLatin1 = 2"
definition kUrlOpaque :: "32 word" where "kUrlOpaque = 4"

type_synonym UrlView = "bytes option"

record UrlParam =
  pm_key :: UrlView
  pm_val :: UrlView

text \<open>The array of parameters; an element that nothing was stored to is \<open>None\<close>.\<close>

record UrlParams =
  ps_n :: nat
  ps_p :: "UrlParam option list option"

record Url =
  url_scheme :: UrlView
  url_user :: UrlView
  url_pass :: UrlView
  url_host :: UrlView
  url_port :: UrlView
  url_path :: UrlView
  url_params :: UrlParams
  url_fragment :: UrlView

definition Url_zero :: Url where
  "Url_zero = \<lparr>url_scheme = None, url_user = None, url_pass = None, url_host = None, url_port = None,
     url_path = None, url_params = \<lparr>ps_n = 0, ps_p = None\<rparr>, url_fragment = None\<rparr>"

text \<open>\<open>p\<close> and \<open>q\<close> point into the output: all of it, and the index where the current view starts.\<close>

record UrlParser =
  up_p :: bytes
  up_q :: nat
  up_s :: bytes
  up_i :: nat
  up_c :: byte
  up_f :: "32 word"

definition sizeof_UrlParam :: nat where "sizeof_UrlParam = 32"

subsection \<open>Emitting\<close>

definition emit :: "byte \<Rightarrow> UrlParser \<Rightarrow> UrlParser" where
  "emit c u = u\<lparr>up_p := up_p u @ [c]\<rparr>"

definition EmitLatin1 :: "byte \<Rightarrow> UrlParser \<Rightarrow> UrlParser" where
  "EmitLatin1 c u = u\<lparr>up_p := up_p u @ [0xC0 OR drop_bit 6 c, 0x80 OR (c AND 0x3F)]\<rparr>"

text \<open>The bytes from \<open>q\<close> on, and \<open>u->q = u->p\<close>.\<close>

definition view :: "UrlParser \<Rightarrow> bytes" where
  "view u = drop (up_q u) (up_p u)"

definition next_view :: "UrlParser \<Rightarrow> UrlParser" where
  "next_view u = u\<lparr>up_q := length (up_p u)\<rparr>"

text \<open>\<open>u->c = u->s[u->i++] & 255\<close>, for the first of the bytes to be read.\<close>

definition advance_url :: "byte \<Rightarrow> bytes \<Rightarrow> UrlParser \<Rightarrow> UrlParser" where
  "advance_url c r u = u\<lparr>up_c := c, up_s := r, up_i := up_i u + 1\<rparr>"

definition grow_params :: "UrlParam option list option \<Rightarrow> nat \<Rightarrow> UrlParam option list" where
  "grow_params p n = take n ((case p of None \<Rightarrow> [] | Some ps \<Rightarrow> ps) @ replicate n None)"

text \<open>The value of a new parameter is stored by the call of \<open>EmitVal\<close> that always follows.\<close>

definition EmitKey :: "allocator \<Rightarrow> UrlParser \<Rightarrow> UrlParams \<Rightarrow> bool \<times> UrlParser \<times> UrlParams" where
  "EmitKey al u h =
     (let n = ps_n h + 1; h = h\<lparr>ps_n := n\<rparr> in
      if al (n * sizeof_UrlParam) then
        (True, next_view u,
         h\<lparr>ps_p := Some ((grow_params (ps_p h) n)[n - 1 := Some \<lparr>pm_key = Some (view u), pm_val = None\<rparr>])\<rparr>)
      else (False, u, h))"

definition store_val :: "UrlView \<Rightarrow> UrlParams \<Rightarrow> UrlParams" where
  "store_val v h =
     h\<lparr>ps_p := map_option (\<lambda>ps. ps[ps_n h - 1 := map_option (pm_val_update (\<lambda>_. v)) (ps ! (ps_n h - 1))]) (ps_p h)\<rparr>"

definition EmitVal :: "allocator \<Rightarrow> UrlParser \<Rightarrow> UrlParams \<Rightarrow> bool \<Rightarrow> UrlParser \<times> UrlParams" where
  "EmitVal al u h t =
     (if \<not> t then
        if length (up_p u) > up_q u \<or> up_c u \<noteq> 0x3F then
          (case EmitKey al u h of (ok, u, h) \<Rightarrow> if ok then (u, store_val None h) else (u, h))
        else (u, h)
      else (next_view u, store_val (Some (view u)) h))"

definition ParseEscape :: "UrlParser \<Rightarrow> UrlParser" where
  "ParseEscape u =
     (case up_s u of
        a # b # r \<Rightarrow>
          if kHexToInt a \<noteq> - 1 \<and> kHexToInt b \<noteq> - 1 then
            emit (word_of_int (push_bit 4 (kHexToInt a) OR kHexToInt b)) (u\<lparr>up_s := r, up_i := up_i u + 2\<rparr>)
          else emit 0x25 u
      | _ \<Rightarrow> emit 0x25 u)"

text \<open>The last three branches that the loops of the parser share.\<close>

definition emit_char :: "UrlParser \<Rightarrow> UrlParser" where
  "emit_char u =
     (if up_c u = 0x25 then ParseEscape u
      else if up_c u \<ge> 0x80 \<and> up_f u AND kUrlLatin1 \<noteq> 0 then EmitLatin1 (up_c u) u
      else emit (up_c u) u)"

lemma length_ParseEscape: "length (up_s (ParseEscape u)) \<le> length (up_s u)"
  by (auto simp: ParseEscape_def emit_def split: list.splits)

lemma length_emit_char: "length (up_s (emit_char u)) \<le> length (up_s u)"
  by (simp add: emit_char_def length_ParseEscape EmitLatin1_def emit_def)

lemma advance_url_simps [simp]:
  "up_c (advance_url c r u) = c" "up_s (advance_url c r u) = r" "up_i (advance_url c r u) = up_i u + 1"
  "up_p (advance_url c r u) = up_p u" "up_q (advance_url c r u) = up_q u" "up_f (advance_url c r u) = up_f u"
  by (simp_all add: advance_url_def)

lemma length_emit_char_advance: "length (up_s (emit_char (advance_url c r u))) < Suc (length r)"
  using length_emit_char [of "advance_url c r u"] by simp

subsection \<open>ParseScheme\<close>

definition isalpha :: "byte \<Rightarrow> bool" where
  "isalpha c \<longleftrightarrow> 0x41 \<le> c \<and> c \<le> 0x5A \<or> 0x61 \<le> c \<and> c \<le> 0x7A"

definition scheme_char :: "byte \<Rightarrow> bool" where
  "scheme_char c \<longleftrightarrow> 0x30 \<le> c \<and> c \<le> 0x39 \<or> isalpha c \<or> c = 0x2B \<or> c = 0x2D \<or> c = 0x2E"

function ParseScheme :: "UrlParser \<Rightarrow> Url \<Rightarrow> bool \<times> UrlParser \<times> Url" where
  "ParseScheme u h =
     (case up_s u of
        [] \<Rightarrow> (False, u, h)
      | c # r \<Rightarrow>
          (let u = advance_url c r u in
           if c = 0x2F then
             if up_i u = 1 \<and> r \<noteq> [] \<and> hd r = 0x2F then
               (True, u\<lparr>up_s := tl r, up_i := up_i u + 1\<rparr>, h)
             else (False, emit 0x2F u, h)
           else if c = 0x3A \<and> up_i u > 1 then
             (let h = h\<lparr>url_scheme := Some (view u)\<rparr>; u = next_view u in
              if r \<noteq> [] \<and> hd r = 0x2F then
                if tl r \<noteq> [] \<and> hd (tl r) = 0x2F then
                  (True, u\<lparr>up_s := tl (tl r), up_i := up_i u + 2\<rparr>, h)
                else (False, u, h)
              else (False, u\<lparr>up_f := up_f u OR kUrlOpaque\<rparr>, h))
           else if c = 0x23 \<or> c = 0x3F then
             (False, next_view u, h\<lparr>url_path := Some (view u)\<rparr>)
           else if c = 0x25 then (False, ParseEscape u, h)
           else if c \<ge> 0x80 \<and> up_f u AND kUrlLatin1 \<noteq> 0 then (False, EmitLatin1 c u, h)
           else
             (let i = up_i u; u = emit c u in
              if i = 1 then if \<not> isalpha c then (False, u, h) else ParseScheme u h
              else if \<not> scheme_char c then (False, u, h) else ParseScheme u h)))"
  by pat_completeness auto
termination
  by (relation "measure (\<lambda>(u, h). length (up_s u))") (auto simp: emit_def)

declare ParseScheme.simps [simp del]

subsection \<open>ParseAuthority\<close>

text \<open>\<open>t\<close> is 0 inside square brackets, otherwise one more than the colons seen; \<open>c\<close> is where the text
  after the last colon starts.\<close>

function authority_loop ::
  "nat \<Rightarrow> nat option \<Rightarrow> UrlParser \<Rightarrow> Url \<Rightarrow> nat \<times> nat option \<times> UrlParser \<times> Url" where
  "authority_loop t c u h =
     (case up_s u of
        [] \<Rightarrow> (t, c, u, h)
      | x # r \<Rightarrow>
          (let u = advance_url x r u in
           if x = 0x2F \<or> x = 0x23 \<or> x = 0x3F then (t, c, u, h)
           else if x = 0x5B then authority_loop 0 c u h
           else if x = 0x5D then authority_loop 1 c u h
           else if x = 0x3A \<and> t > 0 then
             (let u = emit 0x3A u in authority_loop (t + 1) (Some (length (up_p u))) u h)
           else if x = 0x40 then
             (case c of
                Some k \<Rightarrow>
                  authority_loop 1 None (next_view u)
                    (h\<lparr>url_user := Some (take (k - 1 - up_q u) (view u)), url_pass := Some (drop k (up_p u))\<rparr>)
              | None \<Rightarrow> authority_loop t None (next_view u) (h\<lparr>url_user := Some (view u)\<rparr>))
           else authority_loop t c (emit_char u) h))"
  by pat_completeness auto
termination
  by (relation "measure (\<lambda>(t, c, u, h). length (up_s u))")
     (auto simp: emit_def next_view_def length_emit_char_advance)

declare authority_loop.simps [simp del]

definition ParseAuthority :: "UrlParser \<Rightarrow> Url \<Rightarrow> UrlParser \<times> Url" where
  "ParseAuthority u h =
     (case authority_loop 1 None u h of
        (t, c, u, h) \<Rightarrow>
          (let h = (if t = 2 then
                      h\<lparr>url_host := Some (take (the c - 1 - up_q u) (view u)), url_port := Some (drop (the c) (up_p u))\<rparr>
                    else h\<lparr>url_host := Some (view u)\<rparr>);
               u = next_view u
           in (if up_c u = 0x2F then emit (up_c u) u else u, h)))"

subsection \<open>Path, query and fragment\<close>

function path_loop :: "UrlParser \<Rightarrow> UrlParser" where
  "path_loop u =
     (case up_s u of
        [] \<Rightarrow> u
      | c # r \<Rightarrow>
          (let u = advance_url c r u in
           if c = 0x23 then u
           else if c = 0x3F \<and> up_f u AND kUrlOpaque = 0 then u
           else path_loop (emit_char u)))"
  by pat_completeness auto
termination by (relation "measure (\<lambda>u. length (up_s u))") (auto simp: length_emit_char_advance)

declare path_loop.simps [simp del]

definition ParsePath :: "UrlParser \<Rightarrow> UrlParser \<times> UrlView" where
  "ParsePath u = (let u = path_loop u in (next_view u, Some (view u)))"

lemma up_s_EmitKey [simp]: "up_s (fst (snd (EmitKey al u h))) = up_s u"
  by (auto simp: EmitKey_def Let_def next_view_def)

lemma up_s_EmitVal [simp]: "up_s (fst (EmitVal al u h t)) = up_s u"
  using up_s_EmitKey [of al u h]
  by (auto simp: EmitVal_def next_view_def split: prod.splits simp del: up_s_EmitKey)

function query_loop :: "allocator \<Rightarrow> bool \<Rightarrow> UrlParser \<Rightarrow> UrlParams \<Rightarrow> bool \<times> UrlParser \<times> UrlParams" where
  "query_loop al t u h =
     (case up_s u of
        [] \<Rightarrow> (t, u, h)
      | c # r \<Rightarrow>
          (let u = advance_url c r u in
           if c = 0x23 then (t, u, h)
           else if c = 0x2B then
             query_loop al t (emit (if up_f u AND kUrlPlus \<noteq> 0 then 0x20 else 0x2B) u) h
           else if c = 0x26 then
             (case EmitVal al u h t of (u, h) \<Rightarrow> query_loop al False u h)
           else if c = 0x3D then
             if \<not> t then (case EmitKey al u h of (t, u, h) \<Rightarrow> query_loop al t u h)
             else query_loop al t (emit 0x3D u) h
           else query_loop al t (emit_char u) h))"
  by pat_completeness auto

termination
  by (relation "measure (\<lambda>(al, t, u, h). length (up_s u))")
     (auto simp: length_emit_char_advance emit_def split_beta)

declare query_loop.simps [simp del]

definition ParseQuery :: "allocator \<Rightarrow> UrlParser \<Rightarrow> UrlParams \<Rightarrow> UrlParser \<times> UrlParams" where
  "ParseQuery al u h =
     (let h = (if ps_p h = None \<and> al 0 then h\<lparr>ps_p := Some []\<rparr> else h) in
      case query_loop al False u h of (t, u, h) \<Rightarrow> EmitVal al u h t)"

function fragment_loop :: "UrlParser \<Rightarrow> UrlParser" where
  "fragment_loop u =
     (case up_s u of
        [] \<Rightarrow> u
      | c # r \<Rightarrow> fragment_loop (emit_char (advance_url c r u)))"
  by pat_completeness auto
termination by (relation "measure (\<lambda>u. length (up_s u))") (auto simp: length_emit_char_advance)

declare fragment_loop.simps [simp del]

definition ParseFragment :: "UrlParser \<Rightarrow> UrlParser \<times> UrlView" where
  "ParseFragment u = (let u = fragment_loop u in (next_view u, Some (view u)))"

subsection \<open>The entry points\<close>

definition url_start :: "bytes \<Rightarrow> byte \<Rightarrow> 32 word \<Rightarrow> UrlParser" where
  "url_start s c f = \<lparr>up_p = [], up_q = 0, up_s = s, up_i = 0, up_c = c, up_f = f\<rparr>"

definition url_parts :: "allocator \<Rightarrow> UrlParser \<Rightarrow> Url \<Rightarrow> UrlParser \<times> Url" where
  "url_parts al u h =
     (let (t, u, h) = ParseScheme u h;
          (u, h) = (if t then ParseAuthority u h else (u, h));
          (u, h) = (if up_c u \<noteq> 0x23 \<and> up_c u \<noteq> 0x3F then
                      (case ParsePath u of (u, v) \<Rightarrow> (u, h\<lparr>url_path := v\<rparr>)) else (u, h));
          (u, h) = (if up_c u = 0x3F then
                      (case ParseQuery al u (url_params h) of (u, ps) \<Rightarrow> (u, h\<lparr>url_params := ps\<rparr>)) else (u, h))
      in if up_c u = 0x23 then
           (case ParseFragment u of (u, v) \<Rightarrow> (u, h\<lparr>url_fragment := v\<rparr>)) else (u, h))"

text \<open>Each returns the buffer that backs the views, \<open>None\<close> when it could not be allocated.\<close>

definition ParseUrl :: "allocator \<Rightarrow> cstr \<Rightarrow> 32 word \<Rightarrow> bytes option \<times> Url" where
  "ParseUrl al s f =
     (let p = arg_bytes s; n = length p in
      if al (if f AND kUrlLatin1 \<noteq> 0 then n * 2 else n) then
        (case url_parts al (url_start p 0 f) Url_zero of (u, h) \<Rightarrow> (Some (up_p u), h))
      else (None, Url_zero))"

definition ParseParams :: "allocator \<Rightarrow> cstr \<Rightarrow> UrlParams \<Rightarrow> bytes option \<times> UrlParams" where
  "ParseParams al s h =
     (let p = arg_bytes s in
      if al (length p) then
        (case ParseQuery al (url_start p 0x3F kUrlPlus) h of (u, h) \<Rightarrow> (Some (up_p u), h))
      else (None, h))"

definition ParseHost :: "allocator \<Rightarrow> cstr \<Rightarrow> Url \<Rightarrow> bytes option \<times> Url" where
  "ParseHost al s h =
     (let p = arg_bytes s in
      if al (length p * 2) then
        (case ParseAuthority (url_start p 0 kUrlLatin1) h of (u, h) \<Rightarrow> (Some (up_p u), h))
      else (None, h))"

subsection \<open>Escaping\<close>

definition hexdigits_upper :: bytes where
  "hexdigits_upper = str ''0123456789ABCDEF''"

definition escape_byte :: "(byte \<Rightarrow> nat) \<Rightarrow> byte \<Rightarrow> bytes" where
  "escape_byte T c =
     (if T c = 0 then [c]
      else [0x25, hexdigits_upper ! unat (drop_bit 4 (c AND 0xF0)), hexdigits_upper ! unat (c AND 0x0F)])"

text \<open>What \<open>EscapeUrlView(p, v, T)\<close> writes at \<open>p\<close>.\<close>

primrec escape_bytes :: "(byte \<Rightarrow> nat) \<Rightarrow> bytes \<Rightarrow> bytes" where
  "escape_bytes T [] = []"
| "escape_bytes T (c # cs) = escape_byte T c @ escape_bytes T cs"

definition EscapeUrlView :: "(byte \<Rightarrow> nat) \<Rightarrow> UrlView \<Rightarrow> bytes" where
  "EscapeUrlView T v = escape_bytes T (case v of None \<Rightarrow> [] | Some bs \<Rightarrow> bs)"

definition EscapeUrl :: "allocator \<Rightarrow> cstr \<Rightarrow> (byte \<Rightarrow> nat) \<Rightarrow> bytes option" where
  "EscapeUrl al s T =
     (let p = arg_bytes s in
      if al (length p * 6 + 1) then Some (EscapeUrlView T (Some p)) else None)"

definition EscapeFragment :: "allocator \<Rightarrow> cstr \<Rightarrow> bytes option" where
  "EscapeFragment al s = EscapeUrl al s kEscapeFragment"
definition EscapeHost :: "allocator \<Rightarrow> cstr \<Rightarrow> bytes option" where
  "EscapeHost al s = EscapeUrl al s kEscapeAuthority"
definition EscapeIp :: "allocator \<Rightarrow> cstr \<Rightarrow> bytes option" where
  "EscapeIp al s = EscapeUrl al s kEscapeAuthority"
definition EscapeParam :: "allocator \<Rightarrow> cstr \<Rightarrow> bytes option" where
  "EscapeParam al s = EscapeUrl al s kEscapeParam"
definition EscapePass :: "allocator \<Rightarrow> cstr \<Rightarrow> bytes option" where
  "EscapePass al s = EscapeUrl al s kEscapeAuthority"
definition EscapePath :: "allocator \<Rightarrow> cstr \<Rightarrow> bytes option" where
  "EscapePath al s = EscapeUrl al s kEscapePath"
definition EscapeSegment :: "allocator \<Rightarrow> cstr \<Rightarrow> bytes option" where
  "EscapeSegment al s = EscapeUrl al s kEscapeSegment"
definition EscapeUser :: "allocator \<Rightarrow> cstr \<Rightarrow> bytes option" where
  "EscapeUser al s = EscapeUrl al s kEscapeAuthority"

subsection \<open>EncodeUrl\<close>

definition vlen :: "UrlView \<Rightarrow> nat" where
  "vlen v = (case v of None \<Rightarrow> 0 | Some bs \<Rightarrow> length bs)"

text \<open>\<open>h->params.p[i]\<close>; reading an element that was never stored is undefined in C.\<close>

definition param_at :: "UrlParams \<Rightarrow> nat \<Rightarrow> UrlParam" where
  "param_at h i = (case ps_p h of Some ps \<Rightarrow> (case ps ! i of Some x \<Rightarrow> x | None \<Rightarrow> undefined) | None \<Rightarrow> undefined)"

definition DimensionUrl :: "Url \<Rightarrow> nat" where
  "DimensionUrl h =
     vlen (url_scheme h) + 1 + 2 + vlen (url_user h) * 3 + 1 + vlen (url_pass h) * 3 + 1 + 1 +
     vlen (url_host h) * 3 + 1 + 1 + vlen (url_port h) * 3 + 1 + vlen (url_path h) * 3 + 1 +
     ps_n (url_params h) +
     sum_list (map (\<lambda>i. vlen (pm_key (param_at (url_params h) i)) * 3 + 1 +
                        vlen (pm_val (param_at (url_params h) i)) * 3) [0..<ps_n (url_params h)]) +
     1 + vlen (url_fragment h) * 3 + 1"

definition NeedsSquareBrackets :: "bytes \<Rightarrow> UrlView \<Rightarrow> bool" where
  "NeedsSquareBrackets host pass =
     (if 0x3A \<notin> set host then False
      else if pass \<noteq> None then True
      else if length host \<ge> 4 \<and> host ! 0 = 0x76 \<and> host ! 2 = 0x2E \<and> kHexToInt (host ! 1) \<noteq> - 1 then
        list_all (\<lambda>c. kEscapeIp c = 0) (drop 3 host)
      else list_all (\<lambda>c. kHexToInt c \<noteq> 0 \<or> c = 0x2E \<or> c = 0x3A) host)"

definition encode_authority :: "Url \<Rightarrow> bytes \<Rightarrow> bytes" where
  "encode_authority h host =
     (if url_user h \<noteq> None then
        EscapeUrlView kEscapeAuthority (url_user h) @
        (if url_pass h \<noteq> None then [0x3A] @ EscapeUrlView kEscapeAuthority (url_pass h) else []) @ [0x40]
      else []) @
     (if NeedsSquareBrackets host (url_pass h) then [0x5B] @ EscapeUrlView kEscapeIp (Some host) @ [0x5D]
      else EscapeUrlView kEscapeAuthority (Some host)) @
     (if url_port h \<noteq> None then [0x3A] @ EscapeUrlView kEscapeAuthority (url_port h) else [])"

definition encode_param :: "UrlParam \<Rightarrow> bytes" where
  "encode_param x =
     EscapeUrlView kEscapeParam (pm_key x) @
     (if pm_val x \<noteq> None then [0x3D] @ EscapeUrlView kEscapeParam (pm_val x) else [])"

definition encode_params :: "UrlParams \<Rightarrow> bytes" where
  "encode_params h =
     (if ps_p h \<noteq> None then
        [0x3F] @ concat (map (\<lambda>i. (if i \<noteq> 0 then [0x26] else []) @ encode_param (param_at h i)) [0..<ps_n h])
      else [])"

definition encode_url :: "Url \<Rightarrow> bytes" where
  "encode_url h =
     (case url_scheme h of Some s \<Rightarrow> if length s \<noteq> 0 then s @ [0x3A] else [] | None \<Rightarrow> []) @
     (case url_host h of
        Some host \<Rightarrow>
          [0x2F, 0x2F] @ encode_authority h host @
          (case url_path h of Some (c # _) \<Rightarrow> if c \<noteq> 0x2F then [0x2F] else [] | _ \<Rightarrow> [])
      | None \<Rightarrow> []) @
     EscapeUrlView kEscapePath (url_path h) @
     encode_params (url_params h) @
     (if url_fragment h \<noteq> None then [0x23] @ EscapeUrlView kEscapeFragment (url_fragment h) else [])"

definition EncodeUrl :: "allocator \<Rightarrow> Url \<Rightarrow> bytes option" where
  "EncodeUrl al h = (if al (DimensionUrl h) then Some (encode_url h) else None)"


subsection \<open>The output fits the buffer\<close>

definition url_rate :: "32 word \<Rightarrow> nat" where
  "url_rate f = (if f AND kUrlLatin1 \<noteq> 0 then 2 else 1)"

text \<open>Every byte read pays for at most \<open>url_rate\<close> bytes of output.\<close>

definition url_fits :: "nat \<Rightarrow> nat \<Rightarrow> UrlParser \<Rightarrow> bool" where
  "url_fits k n u \<longleftrightarrow>
     url_rate (up_f u) = k \<and> up_i u + length (up_s u) = n \<and> length (up_p u) \<le> k * up_i u"

text \<open>With a slash as its last character \<open>ParseAuthority\<close> has one more byte to write.\<close>

definition url_fits_slash :: "nat \<Rightarrow> nat \<Rightarrow> UrlParser \<Rightarrow> bool" where
  "url_fits_slash k n u \<longleftrightarrow>
     url_fits k n u \<and> (up_c u = 0x2F \<longrightarrow> length (up_p u) + 1 \<le> k * up_i u)"

lemma url_rate_pos: "0 < url_rate f"
  by (simp add: url_rate_def)

lemma url_rate_opaque [simp]: "url_rate (f OR kUrlOpaque) = url_rate f"
proof -
  have "(f OR kUrlOpaque) AND kUrlLatin1 = f AND kUrlLatin1"
    by (simp add: bit.conj_disj_distrib2 kUrlOpaque_def kUrlLatin1_def)
  then show ?thesis by (simp add: url_rate_def)
qed

lemma url_fits_advance: "url_fits k n u \<Longrightarrow> up_s u = c # r \<Longrightarrow> url_fits k n (advance_url c r u)"
  by (auto simp: url_fits_def intro: order_trans)

lemma url_fits_next_view [simp]: "url_fits k n (next_view u) = url_fits k n u"
  by (simp add: url_fits_def next_view_def)

lemma url_fits_emit:
  "url_fits k n u \<Longrightarrow> up_s u = c # r \<Longrightarrow> url_fits k n (emit x (advance_url c r u))"
  using url_rate_pos [of "up_f u"] by (auto simp: url_fits_def emit_def)

lemma url_fits_ParseEscape:
  assumes "url_fits k n u" and "up_s u = c # r"
  shows "url_fits k n (ParseEscape (advance_url c r u))"
proof -
  have e: "up_f (ParseEscape v) = up_f v" "up_i (ParseEscape v) + length (up_s (ParseEscape v)) = up_i v + length (up_s v)"
    "length (up_p (ParseEscape v)) = length (up_p v) + 1" "up_i v \<le> up_i (ParseEscape v)" for v
    by (auto simp: ParseEscape_def emit_def split: list.splits)
  have "k * (up_i u + 1) \<le> k * up_i (ParseEscape (advance_url c r u))"
    using e(4) [of "advance_url c r u"] by (intro mult_le_mono) simp_all
  then show ?thesis
    using assms e [of "advance_url c r u"] url_rate_pos [of "up_f u"] by (auto simp: url_fits_def)
qed

lemma url_fits_EmitLatin1:
  "url_fits k n u \<Longrightarrow> up_s u = c # r \<Longrightarrow> up_f u AND kUrlLatin1 \<noteq> 0 \<Longrightarrow>
   url_fits k n (EmitLatin1 x (advance_url c r u))"
  by (auto simp: url_fits_def EmitLatin1_def url_rate_def)

lemma url_fits_emit_char:
  "url_fits k n u \<Longrightarrow> up_s u = c # r \<Longrightarrow> url_fits k n (emit_char (advance_url c r u))"
  by (simp add: emit_char_def url_fits_ParseEscape url_fits_EmitLatin1 url_fits_emit)

lemma url_fits_EmitKey: "url_fits k n u \<Longrightarrow> url_fits k n (fst (snd (EmitKey al u h)))"
  by (simp add: EmitKey_def Let_def)

lemma url_fits_EmitVal: "url_fits k n u \<Longrightarrow> url_fits k n (fst (EmitVal al u h t))"
  using url_fits_EmitKey [of k n u al h] by (auto simp: EmitVal_def split: prod.splits)

lemma path_loop_fits: "url_fits k n u \<Longrightarrow> url_fits k n (path_loop u)"
proof (induction u rule: path_loop.induct)
  case (1 u)
  then show ?case
    by (subst path_loop.simps)
       (auto simp: Let_def url_fits_advance url_fits_emit_char split: list.splits)
qed

lemma fragment_loop_fits: "url_fits k n u \<Longrightarrow> url_fits k n (fragment_loop u)"
proof (induction u rule: fragment_loop.induct)
  case (1 u)
  then show ?case
    by (subst fragment_loop.simps) (auto simp: url_fits_emit_char split: list.splits)
qed

lemma query_loop_fits: "url_fits k n u \<Longrightarrow> url_fits k n (fst (snd (query_loop al t u h)))"
proof (induction al t u h rule: query_loop.induct)
  case (1 al t u h)
  show ?case
  proof (cases "up_s u")
    case Nil
    then show ?thesis using 1(6) by (simp add: query_loop.simps)
  next
    case (Cons c r)
    note fits = url_fits_advance [OF 1(6) Cons] url_fits_emit [OF 1(6) Cons] url_fits_emit_char [OF 1(6) Cons]
    note vals = url_fits_EmitVal [OF fits(1), of al h t] url_fits_EmitKey [OF fits(1), of al h]
    show ?thesis
      using 1(1) [OF Cons refl] 1(2) [OF Cons refl] 1(3) [OF Cons refl] 1(4) [OF Cons refl]
        1(5) [OF Cons refl] fits vals
      by (subst query_loop.simps) (auto simp: Cons Let_def split: prod.splits)
  qed
qed

lemma ParseQuery_fits: "url_fits k n u \<Longrightarrow> url_fits k n (fst (ParseQuery al u h))"
  using query_loop_fits [of k n u al False] 
  by (auto simp: ParseQuery_def Let_def split: prod.splits intro!: url_fits_EmitVal)
     (metis fst_conv snd_conv url_fits_EmitVal)+

lemma authority_loop_fits:
  "url_fits_slash k n u \<Longrightarrow> url_fits_slash k n (fst (snd (snd (authority_loop t c u h))))"
proof (induction t c u h rule: authority_loop.induct)
  case (1 t c u h)
  show ?case
  proof (cases "up_s u")
    case Nil
    then show ?thesis using 1(7) by (simp add: authority_loop.simps)
  next
    case (Cons x r)
    have f: "url_fits k n u" using 1(7) by (simp add: url_fits_slash_def)
    have c: "up_c (emit_char v) = up_c v" "up_c (next_view v) = up_c v" "up_c (emit y v) = up_c v" for v y
      by (auto simp: emit_char_def ParseEscape_def EmitLatin1_def emit_def next_view_def split: list.splits)
    have fits: "x \<noteq> 0x2F \<Longrightarrow> url_fits_slash k n (advance_url x r u)"
      "x \<noteq> 0x2F \<Longrightarrow> url_fits_slash k n (next_view (advance_url x r u))"
      "x \<noteq> 0x2F \<Longrightarrow> url_fits_slash k n (emit y (advance_url x r u))"
      "x \<noteq> 0x2F \<Longrightarrow> url_fits_slash k n (emit_char (advance_url x r u))" for y
      using url_fits_advance [OF f Cons] url_fits_emit [OF f Cons] url_fits_emit_char [OF f Cons]
      by (simp_all add: url_fits_slash_def c)
    have s: "url_fits_slash k n (advance_url x r u)"
      using url_fits_emit [OF f Cons] url_fits_advance [OF f Cons]
      by (simp add: url_fits_slash_def url_fits_def emit_def)
    show ?thesis
      using 1(1) [OF Cons refl] 1(2) [OF Cons refl] 1(3) [OF Cons refl] 1(4) [OF Cons refl]
        1(5) [OF Cons refl] 1(6) [OF Cons refl] fits s
      by (subst authority_loop.simps) (auto simp: Cons Let_def split: option.splits)
  qed
qed

lemma ParseAuthority_fits: "url_fits_slash k n u \<Longrightarrow> url_fits k n (fst (ParseAuthority u h))"
  using authority_loop_fits [of k n u 1 None h]
  by (auto simp: ParseAuthority_def Let_def url_fits_slash_def url_fits_def emit_def next_view_def
           split: prod.splits)

lemma ParseScheme_plain:
  assumes "up_s u = c # r" "c \<notin> {0x2F, 0x25, 0x23, 0x3F}" "\<not> (c = 0x3A \<and> 0 < up_i u)"
    "\<not> (0x80 \<le> c \<and> up_f u AND kUrlLatin1 \<noteq> 0)"
  shows "ParseScheme u h =
    (if (if up_i u = 0 then isalpha c else scheme_char c) then ParseScheme (emit c (advance_url c r u)) h
     else (False, emit c (advance_url c r u), h))"
  using assms(1,2) by (subst ParseScheme.simps) (simp add: Let_def assms(3,4))

lemma ParseScheme_latin1:
  assumes "up_s u = c # r" "c \<notin> {0x2F, 0x25, 0x23, 0x3F}" "\<not> (c = 0x3A \<and> 0 < up_i u)"
    "0x80 \<le> c \<and> up_f u AND kUrlLatin1 \<noteq> 0"
  shows "ParseScheme u h = (False, EmitLatin1 c (advance_url c r u), h)"
  using assms(1,2) by (subst ParseScheme.simps) (simp add: Let_def assms(3,4))

lemma ParseScheme_fits:
  "url_fits k n u \<Longrightarrow>
   url_fits k n (fst (snd (ParseScheme u h))) \<and>
   (fst (ParseScheme u h) \<longrightarrow> url_fits_slash k n (fst (snd (ParseScheme u h))))"
proof (induction "length (up_s u)" arbitrary: u rule: less_induct)
  case less
  show ?case
  proof (cases "up_s u")
    case Nil
    then show ?thesis using less(2) by (simp add: ParseScheme.simps)
  next
    case (Cons c r)
    note fits = url_fits_advance [OF less(2) Cons] url_fits_emit [OF less(2) Cons]
      url_fits_ParseEscape [OF less(2) Cons] url_fits_EmitLatin1 [OF less(2) Cons]
    have skip: "url_fits_slash k n ((advance_url c r u)\<lparr>up_s := tl r, up_i := Suc (Suc (up_i u))\<rparr>)"
      if "r \<noteq> []"
      using that less(2) Cons url_rate_pos [of "up_f u"]
      by (cases r) (auto simp: url_fits_slash_def url_fits_def)
    have skip2: "url_fits_slash k n
        ((next_view (advance_url c r u))\<lparr>up_s := tl (tl r), up_i := Suc (Suc (Suc (up_i u)))\<rparr>)"
      if "r \<noteq> []" "tl r \<noteq> []"
      using that less(2) Cons url_rate_pos [of "up_f u"]
      by (cases r; cases "tl r") (auto simp: url_fits_slash_def url_fits_def next_view_def)
    have opq: "url_fits k n ((next_view (advance_url c r u))\<lparr>up_f := up_f u OR kUrlOpaque\<rparr>)"
      using fits(1) by (simp add: url_fits_def next_view_def)
    have i: "up_i (next_view v) = up_i v" "up_f (next_view v) = up_f v" for v by (simp_all add: next_view_def)
    have w: "url_fits_slash k n v \<Longrightarrow> url_fits k n v" for v by (simp add: url_fits_slash_def)
    note eqs = ParseScheme.simps [of u h] Cons Let_def i
    have slash: ?thesis if "c = 0x2F"
      using that skip w [OF skip] fits(1,2) by (cases "up_i u = 0") (simp_all add: eqs)
    have percent: ?thesis if "c = 0x25" using that fits(3) by (simp add: eqs)
    have delim: ?thesis if "c = 0x23 \<or> c = 0x3F" using that fits(1) by (elim disjE) (simp_all add: eqs)
    have c: ?thesis if "c \<in> {0x2F, 0x25, 0x23, 0x3F}"
      using that by (elim insertE emptyE) (rule slash percent delim; simp)+
    have colon: ?thesis if "c = 0x3A" "0 < up_i u"
      using that skip2 w [OF skip2] opq fits by (simp add: eqs)
    have plain: ?thesis if "c \<notin> {0x2F, 0x25, 0x23, 0x3F}" "\<not> (c = 0x3A \<and> 0 < up_i u)"
    proof (cases "0x80 \<le> c \<and> up_f u AND kUrlLatin1 \<noteq> 0")
      case True
      then show ?thesis using that(1) fits(4) by (simp add: ParseScheme_latin1 [OF Cons _ that(2)])
    next
      case False
      then show ?thesis
        using that(1) less(1) [OF _ fits(2) [of c]] fits(2) [of c]
        by (simp add: ParseScheme_plain [OF Cons _ that(2) False] Cons emit_def)
    qed
    show ?thesis
    proof (cases "c \<in> {0x2F, 0x25, 0x23, 0x3F}")
      case True
      then show ?thesis by (rule c)
    next
      case False
      then show ?thesis using colon plain [OF False] by argo
    qed
  qed
qed

lemma ParsePath_fits: "url_fits k n u \<Longrightarrow> url_fits k n (fst (ParsePath u))"
  by (simp add: ParsePath_def Let_def path_loop_fits)

lemma ParseFragment_fits: "url_fits k n u \<Longrightarrow> url_fits k n (fst (ParseFragment u))"
  by (simp add: ParseFragment_def Let_def fragment_loop_fits)

lemma url_parts_fits: "url_fits k n u \<Longrightarrow> url_fits k n (fst (url_parts al u h))"
proof -
  assume f: "url_fits k n u"
  obtain t u1 h1 where 1: "ParseScheme u h = (t, u1, h1)" using prod_cases3 by blast
  obtain u2 h2 where 2: "(if t then ParseAuthority u1 h1 else (u1, h1)) = (u2, h2)" by fastforce
  obtain u3 h3 where 3: "(if up_c u2 \<noteq> 0x23 \<and> up_c u2 \<noteq> 0x3F then
      (case ParsePath u2 of (u, v) \<Rightarrow> (u, h2\<lparr>url_path := v\<rparr>)) else (u2, h2)) = (u3, h3)" by fastforce
  obtain u4 h4 where 4: "(if up_c u3 = 0x3F then
      (case ParseQuery al u3 (url_params h3) of (u, ps) \<Rightarrow> (u, h3\<lparr>url_params := ps\<rparr>)) else (u3, h3)) = (u4, h4)"
    by fastforce
  have f2: "url_fits k n u2"
    using ParseScheme_fits [OF f, of h] ParseAuthority_fits [of k n u1 h1] 2 by (auto simp: 1 split: if_splits)
  have f3: "url_fits k n u3"
    using 3 f2 ParsePath_fits [OF f2] by (auto split: if_splits prod.splits)
  have f4: "url_fits k n u4"
    using 4 f3 ParseQuery_fits [OF f3, of al "url_params h3"] by (auto split: if_splits prod.splits)
  show ?thesis
    unfolding url_parts_def 1 Let_def split_conv 2 3 4 if_cong
    using f4 ParseFragment_fits [OF f4] by (auto split: prod.splits)
qed



end
