(* ===== verification/Http_Url_Roundtrip.thy ===== *)
theory Http_Url_Roundtrip
  imports Http_Url
begin

text \<open>
  Parsing what \<open>EncodeUrl\<close> printed.  The interface \<open>url_text\<close> says what the four loops of the parser have
  in common, copying and decoding escaped text; each of them is an instance with its own escape table.
  On top of it there is one lemma per part of a URL, and the round trip for whole URLs.  Behaviour that
  the round trip leaves out is stated at the end.
\<close>

subsection \<open>Parsing inverts printing\<close>

text \<open>
  Each loop of the parser copies the bytes that its escape table leaves alone and decodes the others.
\<close>

definition hexpair :: "byte \<Rightarrow> byte \<Rightarrow> byte" where
  "hexpair a b = word_of_int (push_bit 4 (kHexToInt a) OR kHexToInt b)"

definition hexdigit_ok :: "nat \<Rightarrow> bool" where
  "hexdigit_ok k \<longleftrightarrow> kHexToInt (hexdigits_upper ! k) = int k"

lemma hexdigit_ok_all: "list_all hexdigit_ok [0..<16]"
  by (simp add: upt_rec hexdigit_ok_def hexdigits_upper_def str_def kHexToInt_eq)

lemma nibble_byte_less: "unat (drop_bit 4 (c AND 0xF0 :: byte)) < 16" "unat (c AND 0x0F :: byte) < 16"
proof -
  have m: "(0x0F :: byte) = mask 4" "(0xF0 :: byte) = push_bit 4 (mask 4)" by (simp_all add: mask_eq_decr_exp)
  have "drop_bit 4 (c AND 0xF0) = drop_bit 4 c"
    unfolding m by (intro bit_word_eqI) (auto simp: bit_simps dest: bit_imp_le_length)
  moreover have "unat (drop_bit 4 c) < 16" unfolding unat_drop_bit_eq unfolding drop_bit_eq_div using unat_byte_less [of c] by simp
  ultimately show "unat (drop_bit 4 (c AND 0xF0 :: byte)) < 16" by simp
  show "unat (c AND 0x0F :: byte) < 16"
    unfolding m take_bit_eq_mask [symmetric] unsigned_take_bit_eq
    using take_bit_nat_less_exp [of 4 "unat c"] by simp
qed

lemma hexpair_word: "word_of_int (push_bit 4 (uint x) OR uint y) = push_bit 4 x OR (y :: byte)"
  by (intro bit_word_eqI) (auto simp: bit_simps)

lemma nibbles: "push_bit 4 (drop_bit 4 (c AND 0xF0)) OR (c AND 0x0F) = (c :: byte)"
proof -
  have m: "(0x0F :: byte) = mask 4" "(0xF0 :: byte) = push_bit 4 (mask 4)" by (simp_all add: mask_eq_decr_exp)
  show ?thesis unfolding m by (intro bit_word_eqI) (auto simp: bit_simps)
qed

lemma escape_digits:
  fixes c :: byte
  defines "a \<equiv> hexdigits_upper ! unat (drop_bit 4 (c AND 0xF0))" and "b \<equiv> hexdigits_upper ! unat (c AND 0x0F)"
  shows "kHexToInt a \<noteq> - 1" "kHexToInt b \<noteq> - 1" "hexpair a b = c"
proof -
  have d: "kHexToInt a = uint (drop_bit 4 (c AND 0xF0))" "kHexToInt b = uint (c AND 0x0F)"
    using list_all_uptD [OF hexdigit_ok_all _ nibble_byte_less(1), of c] list_all_uptD [OF hexdigit_ok_all _ nibble_byte_less(2), of c]
    unfolding a_def b_def hexdigit_ok_def by (simp_all only: uint_nat le0)
  show "kHexToInt a \<noteq> - 1" "kHexToInt b \<noteq> - 1" unfolding d by (metis uint_nonnegative neg_0_le_iff_le not_one_le_zero)+
  show "hexpair a b = c" unfolding hexpair_def d hexpair_word by (rule nibbles)
qed

definition esc_last :: "(byte \<Rightarrow> nat) \<Rightarrow> byte \<Rightarrow> bytes \<Rightarrow> byte" where
  "esc_last T c bs = (if bs = [] then c else if T (last bs) = 0 then last bs else 0x25)"

definition after_text :: "(byte \<Rightarrow> nat) \<Rightarrow> bytes \<Rightarrow> bytes \<Rightarrow> UrlParser \<Rightarrow> UrlParser" where
  "after_text T bs r u =
     u\<lparr>up_c := esc_last T (up_c u) bs, up_s := r, up_i := up_i u + length (escape_bytes T bs), up_p := up_p u @ bs\<rparr>"

locale url_text =
  fixes T :: "byte \<Rightarrow> nat" and loop :: "UrlParser \<Rightarrow> 'r"
  assumes plain: "T c = 0 \<Longrightarrow> up_s u = c # r \<Longrightarrow> loop u = loop (emit c (advance_url c r u))"
    and coded: "up_s u = 0x25 # r \<Longrightarrow> loop u = loop (ParseEscape (advance_url 0x25 r u))"
begin

lemma coded_byte:
  assumes "up_s u = 0x25 # a # b # r" "kHexToInt a \<noteq> - 1" "kHexToInt b \<noteq> - 1"
  shows "loop u = loop (u\<lparr>up_c := 0x25, up_s := r, up_i := Suc (Suc (Suc (up_i u))), up_p := up_p u @ [hexpair a b]\<rparr>)"
  using coded [OF assms(1)] assms(2,3)
  by (simp add: ParseEscape_def advance_url_def emit_def hexpair_def)

lemma run_text: "up_s u = escape_bytes T bs @ r \<Longrightarrow> loop u = loop (after_text T bs r u)"
proof (induction bs arbitrary: u)
  case Nil
  then have "u = after_text T [] r u" by (simp add: after_text_def esc_last_def)
  then show ?case by simp
next
  case (Cons c cs)
  define v where "v = after_text T [c] (escape_bytes T cs @ r) u"
  have "loop u = loop v"
  proof (cases "T c = 0")
    case True
    then show ?thesis
      using plain [OF True, of u "escape_bytes T cs @ r"] Cons.prems
      by (simp add: v_def after_text_def escape_byte_def advance_url_def emit_def esc_last_def)
  next
    case False
    then show ?thesis
      using coded_byte [OF _ escape_digits(1,2), of u c c "escape_bytes T cs @ r"] Cons.prems escape_digits(3) [of c]
      by (simp add: v_def after_text_def escape_byte_def esc_last_def)
  qed
  also have "loop v = loop (after_text T cs r v)"
    by (rule Cons.IH) (simp add: v_def after_text_def)
  also have "after_text T cs r v = after_text T (c # cs) r u"
    by (simp add: v_def after_text_def esc_last_def add.assoc)
  finally show ?case .
qed

end

lemma isalnum_ascii:
  "isalnum c \<Longrightarrow> c < 0x80 \<and> c \<notin> {0x23, 0x25, 0x26, 0x2B, 0x2F, 0x3A, 0x3D, 0x3F, 0x40, 0x5B, 0x5D}"
  by (auto simp: isalnum_def isdigit_def isupper_def islower_def word_le_nat_alt word_less_nat_alt)

lemma escape_tables_ascii:
  "kEscapePath c = 0 \<Longrightarrow> c < 0x80 \<and> c \<notin> {0x23, 0x25, 0x3F}"
  "kEscapeParam c = 0 \<Longrightarrow> c < 0x80 \<and> c \<notin> {0x23, 0x25, 0x3F, 0x26, 0x2B, 0x3D}"
  "kEscapeFragment c = 0 \<Longrightarrow> c < 0x80 \<and> c \<notin> {0x23, 0x25}"
  "kEscapeAuthority c = 0 \<Longrightarrow> c < 0x80 \<and> c \<notin> {0x23, 0x25, 0x3F, 0x2F, 0x3A, 0x40, 0x5B, 0x5D}"
  "kEscapeIp c = 0 \<Longrightarrow> c < 0x80 \<and> c \<notin> {0x23, 0x25, 0x3F, 0x2F, 0x40, 0x5B, 0x5D}"
  using isalnum_ascii [of c]
  by (cases "isalnum c"; simp add: kEscapePath_eq kEscapeParam_eq kEscapeFragment_eq kEscapeAuthority_eq
        kEscapeIp_eq split: if_splits; auto)+

lemma emit_char_plain: "c < 0x80 \<Longrightarrow> c \<noteq> 0x25 \<Longrightarrow> emit_char (advance_url c r u) = emit c (advance_url c r u)"
  by (auto simp: emit_char_def)

lemma emit_char_coded: "emit_char (advance_url 0x25 r u) = ParseEscape (advance_url 0x25 r u)"
  by (simp add: emit_char_def)

lemma path_loop_Cons:
  "up_s u = c # r \<Longrightarrow>
   path_loop u = (if c = 0x23 \<or> c = 0x3F \<and> up_f u AND kUrlOpaque = 0 then advance_url c r u
                  else path_loop (emit_char (advance_url c r u)))"
  by (subst path_loop.simps) (simp add: Let_def)

lemma fragment_loop_Cons:
  "up_s u = c # r \<Longrightarrow> fragment_loop u = fragment_loop (emit_char (advance_url c r u))"
  by (subst fragment_loop.simps) simp

lemma query_loop_char:
  "up_s u = c # r \<Longrightarrow> c \<notin> {0x23, 0x26, 0x2B, 0x3D} \<Longrightarrow>
   query_loop al t u h = query_loop al t (emit_char (advance_url c r u)) h"
  by (subst query_loop.simps) (simp add: Let_def)

lemma authority_loop_char:
  "up_s u = x # r \<Longrightarrow> x \<notin> {0x23, 0x2F, 0x3F, 0x40, 0x5B, 0x5D} \<Longrightarrow> x \<noteq> 0x3A \<or> t = 0 \<Longrightarrow>
   authority_loop t c u h = authority_loop t c (emit_char (advance_url x r u)) h"
  by (subst authority_loop.simps) (auto simp: Let_def)

interpretation path_text: url_text kEscapePath path_loop
  using escape_tables_ascii(1)
  by unfold_locales (force simp: emit_char_plain emit_char_coded path_loop_Cons)+

interpretation fragment_text: url_text kEscapeFragment fragment_loop
  using escape_tables_ascii(3)
  by unfold_locales (force simp: emit_char_plain emit_char_coded fragment_loop_Cons)+

interpretation query_text: url_text kEscapeParam "\<lambda>u. query_loop al t u h" for al t h
  using escape_tables_ascii(2)
  by unfold_locales (force simp: emit_char_plain emit_char_coded query_loop_char)+

interpretation authority_text: url_text kEscapeAuthority "\<lambda>u. authority_loop t c u h" for t c h
  using escape_tables_ascii(4)
  by unfold_locales (force simp: emit_char_plain emit_char_coded authority_loop_char)+

interpretation ip_text: url_text kEscapeIp "\<lambda>u. authority_loop 0 c u h" for c h
  using escape_tables_ascii(5)
  by unfold_locales (force simp: emit_char_plain emit_char_coded authority_loop_char)+


text \<open>A parser between two views, with \<open>s\<close> to be read, \<open>c\<close> read last and the flags \<open>f\<close>.\<close>

definition url_at :: "UrlParser \<Rightarrow> bytes \<Rightarrow> byte \<Rightarrow> 32 word \<Rightarrow> bool" where
  "url_at u s c f \<longleftrightarrow> up_s u = s \<and> up_c u = c \<and> up_f u = f \<and> up_q u = length (up_p u)"

lemma esc_last_cases:
  "esc_last T c bs = c \<or> esc_last T c bs = 0x25 \<or> T (esc_last T c bs) = 0"
  by (simp add: esc_last_def)

lemma esc_last_neq:
  assumes "\<And>x. T x = 0 \<Longrightarrow> x \<noteq> d" "d \<noteq> 0x25" "c \<noteq> d"
  shows "esc_last T c bs \<noteq> d"
  using esc_last_cases [of T c bs] assms by metis

lemma ParsePath_text:
  assumes "up_s u = escape_bytes kEscapePath bs @ r" "up_q u \<le> length (up_p u)"
    and "r \<noteq> [] \<Longrightarrow> hd r = 0x23 \<or> hd r = 0x3F \<and> up_f u AND kUrlOpaque = 0"
    and "up_c u \<noteq> 0x23" "up_c u \<noteq> 0x3F"
  obtains u' c where "ParsePath u = (u', Some (view u @ bs))" "url_at u' (tl r) c (up_f u)"
    "if r = [] then c \<noteq> 0x23 \<and> c \<noteq> 0x3F else c = hd r"
proof -
  have run: "path_loop u = path_loop (after_text kEscapePath bs r u)" using assms(1) by (rule path_text.run_text)
  show ?thesis
  proof (cases r)
    case Nil
    have "path_loop u = after_text kEscapePath bs [] u"
      unfolding run Nil by (subst path_loop.simps) (simp add: after_text_def)
    moreover have "esc_last kEscapePath (up_c u) bs \<noteq> d" if "d = 0x23 \<or> d = 0x3F" for d
      using that escape_tables_ascii(1) assms(4,5) by (intro esc_last_neq) auto
    ultimately show ?thesis
      using Nil assms(2) by (intro that [of "next_view (after_text kEscapePath bs [] u)" "esc_last kEscapePath (up_c u) bs"])
        (auto simp: ParsePath_def url_at_def next_view_def after_text_def view_def)
  next
    case (Cons x r')
    then have "path_loop u = advance_url x r' (after_text kEscapePath bs r u)"
      unfolding run using assms(3) by (subst path_loop_Cons) (auto simp: after_text_def)
    then show ?thesis
      using Cons assms(2) by (intro that [of "next_view (advance_url x r' (after_text kEscapePath bs r u))" x])
        (auto simp: ParsePath_def url_at_def next_view_def after_text_def view_def)
  qed
qed

lemma ParseFragment_text:
  assumes "url_at u (escape_bytes kEscapeFragment bs) c f"
  obtains u' where "ParseFragment u = (u', Some bs)"
proof -
  have "fragment_loop u = fragment_loop (after_text kEscapeFragment bs [] u)"
    using assms by (intro fragment_text.run_text) (simp add: url_at_def)
  also have "\<dots> = after_text kEscapeFragment bs [] u"
    by (subst fragment_loop.simps) (simp add: after_text_def)
  finally show ?thesis
    using assms by (intro that) (simp add: ParseFragment_def Let_def view_def url_at_def after_text_def)
qed

subsubsection \<open>Parameters\<close>

definition arr :: "UrlParam list \<Rightarrow> UrlParams" where
  "arr acc = \<lparr>ps_n = length acc, ps_p = Some (map Some acc)\<rparr>"

lemma EmitKey_arr:
  "EmitKey (\<lambda>_. True) u (arr acc) = (True, next_view u, arr (acc @ [\<lparr>pm_key = Some (view u), pm_val = None\<rparr>]))"
  by (simp add: EmitKey_def arr_def grow_params_def list_update_append)

lemma store_val_arr: "store_val v (arr (acc @ [x])) = arr (acc @ [x\<lparr>pm_val := v\<rparr>])"
  by (simp add: store_val_def arr_def nth_append list_update_append)

text \<open>What is left to do for the parameter \<open>x\<close> once its text was read.\<close>

definition param_read :: "UrlParam list \<Rightarrow> UrlParam \<Rightarrow> bool \<Rightarrow> UrlParser \<Rightarrow> UrlParams \<Rightarrow> bool" where
  "param_read acc x t u h \<longleftrightarrow>
     up_q u \<le> length (up_p u) \<and>
     (if t then pm_val x = Some (view u) \<and> h = arr (acc @ [x\<lparr>pm_val := None\<rparr>])
      else pm_key x = Some (view u) \<and> pm_val x = None \<and> h = arr acc)"

lemma EmitVal_param:
  assumes "param_read acc x t u h" "t \<or> up_c u \<noteq> 0x3F \<or> pm_key x \<noteq> Some []"
  shows "EmitVal (\<lambda>_. True) u h t = (next_view u, arr (acc @ [x]))"
proof (cases t)
  case True
  then show ?thesis using assms(1) by (cases x) (simp add: param_read_def EmitVal_def store_val_arr)
next
  case False
  then have "length (up_p u) > up_q u \<or> up_c u \<noteq> 0x3F" using assms by (auto simp: param_read_def view_def)
  then show ?thesis
    using False assms(1) by (cases x) (auto simp: param_read_def EmitVal_def EmitKey_arr store_val_arr)
qed

lemma param_text:
  assumes "url_at u (encode_param x @ r) c f" "pm_key x \<noteq> None" "c \<noteq> 0x23"
  obtains t u' h' where "query_loop (\<lambda>_. True) False u (arr acc) = query_loop (\<lambda>_. True) t u' h'"
    "param_read acc x t u' h'" "up_s u' = r" "up_f u' = f" "up_c u' \<noteq> 0x23"
    "t \<or> up_c u' = c \<or> pm_key x \<noteq> Some []"
proof -
  obtain k where k: "pm_key x = Some k" using assms(2) by blast
  note u = assms(1) [unfolded url_at_def]
  have neq: "esc_last kEscapeParam d bs \<noteq> 0x23" if "d \<noteq> 0x23" for d bs
    using that escape_tables_ascii(2) by (intro esc_last_neq) auto
  show ?thesis
  proof (cases "pm_val x")
    case None
    let ?u = "after_text kEscapeParam k r u"
    have "query_loop (\<lambda>_. True) False u (arr acc) = query_loop (\<lambda>_. True) False ?u (arr acc)"
      using u k None by (intro query_text.run_text) (simp add: encode_param_def EscapeUrlView_def)
    then show ?thesis
      using u k None neq [OF assms(3), of k]
      by (intro that [of False ?u "arr acc"])
         (auto simp: param_read_def after_text_def view_def esc_last_def)
  next
    case (Some v)
    let ?r = "escape_bytes kEscapeParam v @ r"
    let ?u = "after_text kEscapeParam k (0x3D # ?r) u"
    let ?w = "next_view (advance_url 0x3D ?r ?u)"
    let ?h = "arr (acc @ [x\<lparr>pm_val := None\<rparr>])"
    have "query_loop (\<lambda>_. True) False u (arr acc) = query_loop (\<lambda>_. True) False ?u (arr acc)"
      using u k Some by (intro query_text.run_text) (simp add: encode_param_def EscapeUrlView_def)
    also have "\<dots> = query_loop (\<lambda>_. True) True ?w ?h"
      using u k by (subst query_loop.simps)
        (cases x, simp add: after_text_def EmitKey_arr view_def advance_url_def)
    also have "\<dots> = query_loop (\<lambda>_. True) True (after_text kEscapeParam v r ?w) ?h"
      by (intro query_text.run_text) (simp add: next_view_def)
    finally show ?thesis
      using u Some neq [of "0x3D" v]
      by (intro that [of True "after_text kEscapeParam v r ?w" ?h])
         (auto simp: param_read_def after_text_def view_def next_view_def)
  qed
qed

lemma query_run:
  assumes "url_at u (encode_param x @ concat (map (\<lambda>y. [0x26] @ encode_param y) xs) @ r) c f"
    and "list_all (\<lambda>y. pm_key y \<noteq> None) (x # xs)" "c \<noteq> 0x23" "r \<noteq> [] \<Longrightarrow> hd r = 0x23"
    and "c \<noteq> 0x3F \<or> xs \<noteq> [] \<or> r \<noteq> [] \<or> pm_key x \<noteq> Some [] \<or> pm_val x \<noteq> None"
  obtains t u1 h1 u2 c2 where "query_loop (\<lambda>_. True) False u (arr acc) = (t, u1, h1)"
    "EmitVal (\<lambda>_. True) u1 h1 t = (u2, arr (acc @ x # xs))" "url_at u2 (tl r) c2 f"
    "if r = [] then c2 \<noteq> 0x23 else c2 = 0x23"
  using assms
proof (induction xs arbitrary: x u c acc thesis)
  case Nil
  have "url_at u (encode_param x @ r) c f" "pm_key x \<noteq> None" using Nil.prems(2,3) by simp_all
  then obtain t u1 h1 where
    s: "query_loop (\<lambda>_. True) False u (arr acc) = query_loop (\<lambda>_. True) t u1 h1"
    "param_read acc x t u1 h1" "up_s u1 = r" "up_f u1 = f" "up_c u1 \<noteq> 0x23"
    "t \<or> up_c u1 = c \<or> pm_key x \<noteq> Some []"
    using param_text [OF _ _ Nil.prems(4)] by metis
  have val: "t \<longleftrightarrow> pm_val x \<noteq> None" using s(2) by (auto simp: param_read_def split: if_splits)
  show ?case
  proof (cases r)
    case Nil
    then have "query_loop (\<lambda>_. True) t u1 h1 = (t, u1, h1)" using s(3) by (simp add: query_loop.simps)
    moreover have "EmitVal (\<lambda>_. True) u1 h1 t = (next_view u1, arr (acc @ [x]))"
      using s(2,6) Nil.prems(6) Nil val by (intro EmitVal_param) auto
    ultimately show ?thesis
      using s Nil by (intro Nil.prems(1) [of t u1 h1 "next_view u1" "up_c u1"])
        (auto simp: url_at_def next_view_def)
  next
    case (Cons y r')
    then have y: "y = 0x23" using Nil.prems(5) by simp
    let ?u = "advance_url y r' u1"
    have "query_loop (\<lambda>_. True) t u1 h1 = (t, ?u, h1)" using s(3) Cons y by (simp add: query_loop.simps)
    moreover have "EmitVal (\<lambda>_. True) ?u h1 t = (next_view ?u, arr (acc @ [x]))"
      using s(2) y by (intro EmitVal_param) (auto simp: param_read_def view_def)
    ultimately show ?thesis
      using s Cons y by (intro Nil.prems(1) [of t ?u h1 "next_view ?u" y])
        (auto simp: url_at_def next_view_def)
  qed
next
  case (Cons y ys)
  let ?r = "encode_param y @ concat (map (\<lambda>y. [0x26] @ encode_param y) ys) @ r"
  have "url_at u (encode_param x @ 0x26 # ?r) c f" "pm_key x \<noteq> None" using Cons.prems(2,3) by simp_all
  then obtain t u1 h1 where
    s: "query_loop (\<lambda>_. True) False u (arr acc) = query_loop (\<lambda>_. True) t u1 h1"
    "param_read acc x t u1 h1" "up_s u1 = 0x26 # ?r" "up_f u1 = f"
    using param_text [OF _ _ Cons.prems(4)] by metis
  let ?u = "advance_url 0x26 ?r u1"
  have "EmitVal (\<lambda>_. True) ?u h1 t = (next_view ?u, arr (acc @ [x]))"
    using s(2) by (intro EmitVal_param) (auto simp: param_read_def view_def)
  then have q: "query_loop (\<lambda>_. True) False u (arr acc) = query_loop (\<lambda>_. True) False (next_view ?u) (arr (acc @ [x]))"
    unfolding s(1) using s(3) by (subst query_loop.simps) simp
  have at: "url_at (next_view ?u) ?r 0x26 f" using s(4) by (simp add: url_at_def next_view_def)
  obtain t u1 h1 u2 c2 where
    "query_loop (\<lambda>_. True) False (next_view ?u) (arr (acc @ [x])) = (t, u1, h1)"
    "EmitVal (\<lambda>_. True) u1 h1 t = (u2, arr ((acc @ [x]) @ y # ys))" "url_at u2 (tl r) c2 f"
    "if r = [] then c2 \<noteq> 0x23 else c2 = 0x23"
    by (rule Cons.IH [OF _ at, where acc = "acc @ [x]"]) (use Cons.prems(3,5) in auto)
  then show ?case using q by (intro Cons.prems(1)) auto
qed


subsubsection \<open>Authority\<close>

text \<open>The last byte read is not one that ends the authority, unless no text was read.\<close>

definition ends_ok :: "byte \<Rightarrow> bytes \<Rightarrow> byte \<Rightarrow> bool" where
  "ends_ok c txt c' \<longleftrightarrow> c' \<notin> {0x23, 0x2F, 0x3F} \<or> c' = c \<and> txt = []"

lemma ends_ok_trans: "ends_ok c t1 c1 \<Longrightarrow> ends_ok c1 t2 c2 \<Longrightarrow> ends_ok c (t1 @ t2) c2"
  by (auto simp: ends_ok_def)

lemma escape_bytes_Nil [simp]: "escape_bytes T bs = [] \<longleftrightarrow> bs = []"
  by (cases bs) (simp_all add: escape_byte_def)

lemma ends_ok_esc:
  "ends_ok c (escape_bytes kEscapeAuthority bs) (esc_last kEscapeAuthority c bs)"
  using escape_tables_ascii(4) [of "last bs"] by (auto simp: ends_ok_def esc_last_def)

lemma authority_user:
  assumes "url_at u (escape_bytes kEscapeAuthority us @ 0x40 # r) c f"
  obtains u' where "authority_loop 1 None u h = authority_loop 1 None u' (h\<lparr>url_user := Some us\<rparr>)" "url_at u' r 0x40 f"
proof -
  let ?u = "after_text kEscapeAuthority us (0x40 # r) u"
  have "authority_loop 1 None u h = authority_loop 1 None ?u h"
    using assms by (intro authority_text.run_text) (simp add: url_at_def)
  also have "\<dots> = authority_loop 1 None (next_view (advance_url 0x40 r ?u)) (h\<lparr>url_user := Some us\<rparr>)"
    using assms by (subst authority_loop.simps) (simp add: after_text_def view_def url_at_def)
  finally show ?thesis
    by (rule that) (use assms in \<open>simp add: url_at_def next_view_def after_text_def\<close>)
qed

lemma authority_colon:
  assumes "url_at u (escape_bytes kEscapeAuthority a @ 0x3A # escape_bytes kEscapeAuthority b @ r) c f"
  obtains u' where "authority_loop 1 None u h = authority_loop 2 (Some (length (up_p u) + length a + 1)) u' h"
    "up_s u' = r" "up_f u' = f" "up_q u' = length (up_p u)" "up_p u' = up_p u @ a @ [0x3A] @ b"
    "up_c u' \<notin> {0x23, 0x2F, 0x3F}"
proof -
  let ?r = "escape_bytes kEscapeAuthority b @ r"
  let ?u = "after_text kEscapeAuthority a (0x3A # ?r) u"
  let ?w = "emit 0x3A (advance_url 0x3A ?r ?u)"
  let ?c = "Some (length (up_p u) + length a + 1)"
  have "authority_loop 1 None u h = authority_loop 1 None ?u h"
    using assms by (intro authority_text.run_text) (simp add: url_at_def)
  also have "\<dots> = authority_loop 2 ?c ?w h"
    using assms by (subst authority_loop.simps) (simp add: after_text_def emit_def, simp add: numeral_2_eq_2)
  also have "\<dots> = authority_loop 2 ?c (after_text kEscapeAuthority b r ?w) h"
    by (intro authority_text.run_text) (simp add: emit_def)
  finally have run: "authority_loop 1 None u h = authority_loop 2 ?c (after_text kEscapeAuthority b r ?w) h" .
  show ?thesis
    using assms ends_ok_esc [of "0x3A" b]
    by (intro that [OF run]) (auto simp: after_text_def emit_def url_at_def ends_ok_def)
qed

definition userinfo_text :: "UrlView \<Rightarrow> UrlView \<Rightarrow> bytes" where
  "userinfo_text us pw =
     (case us of
        None \<Rightarrow> []
      | Some a \<Rightarrow> escape_bytes kEscapeAuthority a @
          (case pw of None \<Rightarrow> [] | Some b \<Rightarrow> 0x3A # escape_bytes kEscapeAuthority b) @ [0x40])"

lemma authority_userinfo:
  assumes "url_at u (userinfo_text us pw @ r) c f" "us = None \<Longrightarrow> pw = None" "url_user h = None" "url_pass h = None"
  obtains u' c' where "authority_loop 1 None u h = authority_loop 1 None u' (h\<lparr>url_user := us, url_pass := pw\<rparr>)"
    "url_at u' r c' f" "ends_ok c (userinfo_text us pw) c'"
proof (cases us)
  case None
  then have "h\<lparr>url_user := us, url_pass := pw\<rparr> = h" using assms by (cases h) simp
  then have "authority_loop 1 None u h = authority_loop 1 None u (h\<lparr>url_user := us, url_pass := pw\<rparr>)" by simp
  then show ?thesis
    by (rule that [of u c]) (use assms None in \<open>simp_all add: userinfo_text_def ends_ok_def\<close>)
next
  case (Some a)
  show ?thesis
  proof (cases pw)
    case None
    have hp: "h\<lparr>url_user := Some a, url_pass := None\<rparr> = h\<lparr>url_user := Some a\<rparr>" using assms(4) by (cases h) simp
    have "url_at u (escape_bytes kEscapeAuthority a @ 0x40 # r) c f"
      using assms(1) by (simp add: userinfo_text_def Some None)
    then obtain u' where "authority_loop 1 None u h = authority_loop 1 None u' (h\<lparr>url_user := Some a\<rparr>)" "url_at u' r 0x40 f"
      by (rule authority_user)
    then show ?thesis by (intro that [of u' "0x40"]) (simp_all add: hp Some None ends_ok_def)
  next
    case (Some b)
    have "url_at u (escape_bytes kEscapeAuthority a @ 0x3A # escape_bytes kEscapeAuthority b @ 0x40 # r) c f"
      using assms(1) by (simp add: userinfo_text_def Some \<open>us = Some a\<close>)
    then obtain u1 where u1: "authority_loop 1 None u h = authority_loop 2 (Some (length (up_p u) + length a + 1)) u1 h"
      "up_s u1 = 0x40 # r" "up_f u1 = f" "up_q u1 = length (up_p u)" "up_p u1 = up_p u @ a @ [0x3A] @ b"
      using authority_colon [of u a b "0x40 # r" c f h] by blast
    have "authority_loop 1 None u h =
        authority_loop 1 None (next_view (advance_url 0x40 r u1)) (h\<lparr>url_user := us, url_pass := pw\<rparr>)"
      unfolding u1(1) using u1(2-5)
      by (subst authority_loop.simps) (simp add: view_def Some \<open>us = Some a\<close>)
    then show ?thesis
      by (rule that [of _ "0x40"]) (use u1(3) in \<open>simp_all add: url_at_def next_view_def ends_ok_def\<close>)
  qed
qed

definition host_text :: "bytes \<Rightarrow> UrlView \<Rightarrow> bytes" where
  "host_text host pw =
     (if NeedsSquareBrackets host pw then 0x5B # escape_bytes kEscapeIp host @ [0x5D]
      else escape_bytes kEscapeAuthority host)"

lemma authority_host:
  assumes "url_at u (host_text host pw @ r) c f"
  obtains u' where "authority_loop 1 None u h = authority_loop 1 None u' h"
    "up_s u' = r" "up_f u' = f" "up_q u' = length (up_p u)" "up_p u' = up_p u @ host"
    "ends_ok c (host_text host pw) (up_c u')"
proof (cases "NeedsSquareBrackets host pw")
  case True
  let ?r = "escape_bytes kEscapeIp host @ 0x5D # r"
  let ?u = "advance_url 0x5B ?r u"
  let ?w = "after_text kEscapeIp host (0x5D # r) ?u"
  have "authority_loop 1 None u h = authority_loop 0 None ?u h"
    using assms True by (subst authority_loop.simps) (simp add: url_at_def host_text_def)
  also have "\<dots> = authority_loop 0 None ?w h" by (intro ip_text.run_text) simp
  also have "\<dots> = authority_loop 1 None (advance_url 0x5D r ?w) h"
    by (subst authority_loop.simps) (simp add: after_text_def)
  finally show ?thesis
    by (rule that) (use assms in \<open>auto simp: after_text_def url_at_def ends_ok_def\<close>)
next
  case False
  have "authority_loop 1 None u h = authority_loop 1 None (after_text kEscapeAuthority host r u) h"
    using assms False by (intro authority_text.run_text) (simp add: url_at_def host_text_def)
  then show ?thesis
    by (rule that)
       (use assms False ends_ok_esc [of c host] in \<open>auto simp: after_text_def url_at_def host_text_def\<close>)
qed

definition port_text :: "UrlView \<Rightarrow> bytes" where
  "port_text port = (case port of None \<Rightarrow> [] | Some b \<Rightarrow> 0x3A # escape_bytes kEscapeAuthority b)"

lemma encode_authority_text:
  "encode_authority h host = userinfo_text (url_user h) (url_pass h) @ host_text host (url_pass h) @ port_text (url_port h)"
  by (auto simp: encode_authority_def userinfo_text_def host_text_def port_text_def EscapeUrlView_def split: option.splits)

lemma ParseAuthority_text:
  assumes "url_at u (encode_authority h0 host @ r) c f" "url_user h0 = None \<Longrightarrow> url_pass h0 = None"
    and "url_user h = None" "url_pass h = None" "url_port h = None"
    and "r \<noteq> [] \<Longrightarrow> hd r \<in> {0x2F, 0x23, 0x3F}" "r = [] \<Longrightarrow> c = 0x2F \<Longrightarrow> encode_authority h0 host \<noteq> []"
    and "c \<noteq> 0x23" "c \<noteq> 0x3F"
  obtains u' where "ParseAuthority u h =
      (u', h\<lparr>url_user := url_user h0, url_pass := url_pass h0, url_host := Some host, url_port := url_port h0\<rparr>)"
    "up_s u' = tl r" "up_f u' = f" "up_q u' \<le> length (up_p u')"
    "view u' = (if r \<noteq> [] \<and> hd r = 0x2F then [0x2F] else [])"
    "if r = [] then up_c u' \<notin> {0x23, 0x2F, 0x3F} else up_c u' = hd r"
proof -
  let ?h = "h\<lparr>url_user := url_user h0, url_pass := url_pass h0\<rparr>"
  obtain u1 c1 where u1: "authority_loop 1 None u h = authority_loop 1 None u1 ?h"
    "url_at u1 (host_text host (url_pass h0) @ port_text (url_port h0) @ r) c1 f"
    "ends_ok c (userinfo_text (url_user h0) (url_pass h0)) c1"
    using authority_userinfo [of u "url_user h0" "url_pass h0" "host_text host (url_pass h0) @ port_text (url_port h0) @ r" c f h]
      assms(1-4) by (auto simp: encode_authority_text)
  define t where "t = (if url_port h0 = None then 1 else 2 :: nat)"
  obtain u2 k where u2: "authority_loop 1 None u1 ?h = authority_loop t k u2 ?h"
    "up_s u2 = r" "up_f u2 = f" "up_q u2 = length (up_p u1)"
    "case url_port h0 of None \<Rightarrow> up_p u2 = up_p u1 @ host
       | Some b \<Rightarrow> k = Some (length (up_p u1) + length host + 1) \<and> up_p u2 = up_p u1 @ host @ [0x3A] @ b"
    "ends_ok c1 (host_text host (url_pass h0) @ port_text (url_port h0)) (up_c u2)"
  proof (cases "url_port h0")
    case None
    obtain u2 where "authority_loop 1 None u1 ?h = authority_loop 1 None u2 ?h" "up_s u2 = r" "up_f u2 = f"
      "up_q u2 = length (up_p u1)" "up_p u2 = up_p u1 @ host" "ends_ok c1 (host_text host (url_pass h0)) (up_c u2)"
      using authority_host [of u1 host "url_pass h0" r c1 f ?h] u1(2) by (auto simp: None port_text_def)
    then show ?thesis by (intro that [of None u2]) (simp_all add: None t_def port_text_def)
  next
    case (Some b)
    obtain u3 where u3: "authority_loop 1 None u1 ?h = authority_loop 1 None u3 ?h"
      "up_s u3 = port_text (url_port h0) @ r" "up_f u3 = f"
      "up_q u3 = length (up_p u1)" "up_p u3 = up_p u1 @ host"
      using authority_host [OF u1(2)] by metis
    have "authority_loop 1 None u3 ?h = authority_loop 2 (Some (length (up_p u3) + 1)) (emit 0x3A (advance_url 0x3A (escape_bytes kEscapeAuthority b @ r) u3)) ?h"
      using u3(2) by (subst authority_loop.simps) (simp add: Some port_text_def emit_def, simp add: numeral_2_eq_2)
    also have "\<dots> = authority_loop 2 (Some (length (up_p u3) + 1)) (after_text kEscapeAuthority b r
        (emit 0x3A (advance_url 0x3A (escape_bytes kEscapeAuthority b @ r) u3))) ?h" (is "_ = authority_loop 2 _ ?u2 _")
      by (intro authority_text.run_text) (simp add: emit_def)
    finally have "authority_loop 1 None u1 ?h = authority_loop t (Some (length (up_p u3) + 1)) ?u2 ?h"
      using u3(1) by (simp add: t_def Some)
    then show ?thesis
      by (rule that)
         (use u3 ends_ok_esc [of "0x3A" b] in \<open>auto simp: Some port_text_def after_text_def emit_def ends_ok_def\<close>)
  qed
  have c: "r = [] \<Longrightarrow> up_c u2 \<notin> {0x23, 0x2F, 0x3F}"
    using ends_ok_trans [OF u1(3) u2(6)] assms(7-9) by (auto simp: ends_ok_def encode_authority_text)
  define u3 where "u3 = (case r of [] \<Rightarrow> u2 | x # r' \<Rightarrow> advance_url x r' u2)"
  have "authority_loop t k u2 ?h = (t, k, u3, ?h)"
    using u2(2) assms(6) by (subst authority_loop.simps) (auto simp: u3_def split: list.splits)
  then have run: "authority_loop 1 None u h = (t, k, u3, ?h)" using u1(1) u2(1) by simp
  have q: "up_q u3 = length (up_p u1)" "up_p u3 = up_p u2" "up_f u3 = f" "up_s u3 = tl r"
    "if r = [] then up_c u3 = up_c u2 else up_c u3 = hd r"
    using u2(2-4) by (auto simp: u3_def split: list.splits)
  define u4 where "u4 = (if up_c u3 = 0x2F then emit 0x2F (next_view u3) else next_view u3)"
  have hh: "url_port h0 = None \<Longrightarrow> h\<lparr>url_user := url_user h0, url_pass := url_pass h0, url_host := Some host\<rparr> =
      h\<lparr>url_user := url_user h0, url_pass := url_pass h0, url_host := Some host, url_port := url_port h0\<rparr>"
    using assms(5) by (cases h) simp
  have "ParseAuthority u h =
      (u4, h\<lparr>url_user := url_user h0, url_pass := url_pass h0, url_host := Some host, url_port := url_port h0\<rparr>)"
    unfolding ParseAuthority_def run using u2(5) q hh
    by (cases "url_port h0") (auto simp: Let_def t_def u4_def view_def next_view_def)
  then show ?thesis
    by (rule that) (use q c in \<open>auto simp: u4_def emit_def next_view_def view_def split: if_splits\<close>)
qed


subsubsection \<open>Scheme\<close>

definition scheme_ok :: "bytes \<Rightarrow> bool" where
  "scheme_ok s \<longleftrightarrow> s \<noteq> [] \<and> isalpha (hd s) \<and> list_all scheme_char (tl s)"

lemma scheme_char_plain: "scheme_char c \<Longrightarrow> c < 0x80 \<and> c \<notin> {0x2F, 0x25, 0x23, 0x3F} \<and> c \<noteq> 0x3A"
  by (auto simp: scheme_char_def isalpha_def word_le_nat_alt word_less_nat_alt)

lemma ParseScheme_chars:
  assumes "up_s u = cs @ r" "list_all scheme_char cs" "cs \<noteq> [] \<Longrightarrow> up_i u = 0 \<Longrightarrow> isalpha (hd cs)"
  obtains u' where "ParseScheme u h = ParseScheme u' h" "up_s u' = r" "up_i u' = up_i u + length cs"
    "up_p u' = up_p u @ cs" "up_q u' = up_q u" "up_f u' = up_f u"
  using assms
proof (induction cs arbitrary: u thesis)
  case Nil
  then show ?case by simp
next
  case (Cons c cs)
  let ?v = "emit c (advance_url c (cs @ r) u)"
  have c: "scheme_char c" using Cons.prems(3) by simp
  have "ParseScheme u h = ParseScheme ?v h"
    using Cons.prems scheme_char_plain [OF c] c by (subst ParseScheme_plain [of u c "cs @ r"]) auto
  moreover obtain u' where "ParseScheme ?v h = ParseScheme u' h" "up_s u' = r" "up_i u' = up_i ?v + length cs"
    "up_p u' = up_p ?v @ cs" "up_q u' = up_q ?v" "up_f u' = up_f ?v"
    by (rule Cons.IH [of ?v]) (use Cons.prems(3) in \<open>auto simp: emit_def\<close>)
  ultimately show ?case by (intro Cons.prems(1) [of u']) (simp_all add: emit_def)
qed

lemma scheme_start:
  assumes "scheme_ok s"
  obtains u where "ParseScheme (url_start (s @ 0x3A # r) 0 f) h = ParseScheme u h" "up_s u = 0x3A # r"
    "up_i u > 0" "up_p u = s" "up_q u = 0" "up_f u = f"
proof -
  have "list_all scheme_char s" "s \<noteq> []" "isalpha (hd s)"
    using assms by (cases s; simp add: scheme_ok_def scheme_char_def)+
  then obtain u where "ParseScheme (url_start (s @ 0x3A # r) 0 f) h = ParseScheme u h" "up_s u = 0x3A # r"
    "up_i u = up_i (url_start (s @ 0x3A # r) 0 f) + length s" "up_p u = up_p (url_start (s @ 0x3A # r) 0 f) @ s"
    "up_q u = up_q (url_start (s @ 0x3A # r) 0 f)" "up_f u = up_f (url_start (s @ 0x3A # r) 0 f)"
    by (rule_tac ParseScheme_chars [of "url_start (s @ 0x3A # r) 0 f" s "0x3A # r" h]) (auto simp: url_start_def)
  with \<open>s \<noteq> []\<close> show ?thesis by (intro that [of u]) (simp_all add: url_start_def)
qed

lemma ParseScheme_scheme_host:
  assumes "scheme_ok s"
  obtains u where "ParseScheme (url_start (s @ [0x3A, 0x2F, 0x2F] @ r) 0 f) h = (True, u, h\<lparr>url_scheme := Some s\<rparr>)"
    "url_at u r 0x3A f"
proof -
  obtain u where u: "ParseScheme (url_start (s @ [0x3A, 0x2F, 0x2F] @ r) 0 f) h = ParseScheme u h"
    "up_s u = 0x3A # 0x2F # 0x2F # r" "up_i u > 0" "up_p u = s" "up_q u = 0" "up_f u = f"
    using scheme_start [OF assms, of "0x2F # 0x2F # r" f h] by auto
  have "ParseScheme u h = (True, (next_view (advance_url 0x3A (0x2F # 0x2F # r) u))\<lparr>up_s := r,
      up_i := Suc (Suc (Suc (up_i u)))\<rparr>, h\<lparr>url_scheme := Some s\<rparr>)"
    using u(2-5) by (subst ParseScheme.simps) (simp add: Let_def view_def next_view_def)
  then show ?thesis
    by (rule that [OF u(1) [THEN trans]]) (use u in \<open>simp add: url_at_def next_view_def\<close>)
qed

lemma ParseScheme_scheme_path:
  assumes "scheme_ok s" "r = [] \<or> hd r \<noteq> 0x2F"
  obtains u where "ParseScheme (url_start (s @ [0x3A, 0x2F] @ r) 0 f) h = (False, u, h\<lparr>url_scheme := Some s\<rparr>)"
    "url_at u (0x2F # r) 0x3A f"
proof -
  obtain u where u: "ParseScheme (url_start (s @ [0x3A, 0x2F] @ r) 0 f) h = ParseScheme u h"
    "up_s u = 0x3A # 0x2F # r" "up_i u > 0" "up_p u = s" "up_q u = 0" "up_f u = f"
    using scheme_start [OF assms(1), of "0x2F # r" f h] by auto
  have "ParseScheme u h = (False, next_view (advance_url 0x3A (0x2F # r) u), h\<lparr>url_scheme := Some s\<rparr>)"
    using u(2-5) assms(2) by (subst ParseScheme.simps) (auto simp add: Let_def view_def)
  then show ?thesis
    by (rule that [OF u(1) [THEN trans]]) (use u in \<open>simp add: url_at_def next_view_def\<close>)
qed

lemma ParseScheme_host:
  obtains u where "ParseScheme (url_start (0x2F # 0x2F # r) 0 f) h = (True, u, h)" "url_at u r 0x2F f"
proof -
  let ?u = "url_start (0x2F # 0x2F # r) 0 f"
  have "ParseScheme ?u h = (True, (advance_url 0x2F (0x2F # r) ?u)\<lparr>up_s := r, up_i := Suc (Suc 0)\<rparr>, h)"
    by (subst ParseScheme.simps) (simp add: url_start_def Let_def advance_url_def)
  then show ?thesis by (rule that) (simp add: url_at_def url_start_def)
qed

lemma ParseScheme_path:
  assumes "r = [] \<or> hd r \<noteq> 0x2F"
  obtains u where "ParseScheme (url_start (0x2F # r) 0 f) h = (False, u, h)"
    "up_s u = r" "up_q u = 0" "up_p u = [0x2F]" "up_c u = 0x2F" "up_f u = f"
proof -
  let ?u = "url_start (0x2F # r) 0 f"
  have "ParseScheme ?u h = (False, emit 0x2F (advance_url 0x2F r ?u), h)"
    using assms by (subst ParseScheme.simps) (auto simp add: url_start_def Let_def advance_url_def)
  then show ?thesis by (rule that) (simp_all add: emit_def url_start_def)
qed

subsubsection \<open>The whole URL\<close>

definition fragment_part :: "UrlView \<Rightarrow> bytes" where
  "fragment_part fr = (if fr \<noteq> None then [0x23] @ EscapeUrlView kEscapeFragment fr else [])"

definition url_tail :: "allocator \<Rightarrow> UrlParser \<Rightarrow> Url \<Rightarrow> UrlParser \<times> Url" where
  "url_tail al u h =
     (case (if up_c u = 0x3F then
              (case ParseQuery al u (url_params h) of (u, ps) \<Rightarrow> (u, h\<lparr>url_params := ps\<rparr>)) else (u, h)) of
        (u, h) \<Rightarrow> if up_c u = 0x23 then
           (case ParseFragment u of (u, v) \<Rightarrow> (u, h\<lparr>url_fragment := v\<rparr>)) else (u, h))"

lemma url_parts_eq:
  "url_parts al u h =
     (case ParseScheme u h of (t, u, h) \<Rightarrow>
      case (if t then ParseAuthority u h else (u, h)) of (u, h) \<Rightarrow>
      case (if up_c u \<noteq> 0x23 \<and> up_c u \<noteq> 0x3F then
              (case ParsePath u of (u, v) \<Rightarrow> (u, h\<lparr>url_path := v\<rparr>)) else (u, h)) of (u, h) \<Rightarrow> url_tail al u h)"
  by (simp add: url_parts_def url_tail_def Let_def)

definition params_ok :: "UrlParams \<Rightarrow> UrlView \<Rightarrow> bool" where
  "params_ok ps fr \<longleftrightarrow>
     ps = \<lparr>ps_n = 0, ps_p = None\<rparr> \<or>
     (\<exists>xs. ps = arr xs \<and> list_all (\<lambda>x. pm_key x \<noteq> None) xs \<and>
        (if fr = None then xs \<noteq> [\<lparr>pm_key = Some [], pm_val = None\<rparr>] else xs \<noteq> []))"

lemma encode_params_arr:
  "encode_params (arr xs) =
     (case xs of [] \<Rightarrow> [0x3F] | y # ys \<Rightarrow> 0x3F # encode_param y @ concat (map (\<lambda>y. [0x26] @ encode_param y) ys))"
proof -
  have a: "ps_n (arr xs) = length xs" "ps_p (arr xs) = Some (map Some xs)" by (simp_all add: arr_def)
  have "map (\<lambda>i. (if i \<noteq> 0 then [0x26] else []) @ encode_param (param_at (arr xs) i)) [0..<length xs] =
      map (\<lambda>i. (if i \<noteq> 0 then [0x26] else []) @ encode_param (xs ! i)) [0..<length xs]"
    by (simp add: param_at_def arr_def)
  then have e: "encode_params (arr xs) =
      0x3F # concat (map (\<lambda>i. (if i \<noteq> 0 then [0x26] else []) @ encode_param (xs ! i)) [0..<length xs])"
    by (simp only: encode_params_def a option.distinct simp_thms if_True append_Cons append_Nil)
  have m: "map (\<lambda>i. (if i \<noteq> 0 then [0x26] else []) @ encode_param ((y # ys) ! i)) [0..<length (y # ys)] =
      encode_param y # map (\<lambda>y. [0x26] @ encode_param y) ys" for y ys
    by (simp add: upt_conv_Cons map_Suc_upt [symmetric] del: upt_Suc) (rule nth_equalityI; simp)
  show ?thesis
  proof (cases xs)
    case Nil
    then show ?thesis using e by simp
  next
    case (Cons y ys)
    show ?thesis unfolding e unfolding Cons m by simp
  qed
qed

lemma url_tail_text:
  assumes "params_ok ps fr" "url_params h = \<lparr>ps_n = 0, ps_p = None\<rparr>" "url_fragment h = None"
    and "url_at u (tl (encode_params ps @ fragment_part fr)) c f"
    and "if encode_params ps @ fragment_part fr = [] then c \<noteq> 0x23 \<and> c \<noteq> 0x3F
         else c = hd (encode_params ps @ fragment_part fr)"
  obtains u' where "url_tail (\<lambda>_. True) u h = (u', h\<lparr>url_params := ps, url_fragment := fr\<rparr>)"
proof -
  let ?h = "h\<lparr>url_params := ps\<rparr>"
  have query: "\<exists>u1 c1. (if up_c u = 0x3F then
      (case ParseQuery (\<lambda>_. True) u (url_params h) of (u, ps) \<Rightarrow> (u, h\<lparr>url_params := ps\<rparr>)) else (u, h)) =
      (u1, ?h) \<and> url_at u1 (tl (fragment_part fr)) c1 f \<and>
      (if fragment_part fr = [] then c1 \<noteq> 0x23 else c1 = 0x23)"
  proof (cases "ps = \<lparr>ps_n = 0, ps_p = None\<rparr>")
    case True
    then have "?h = h" using assms(2) by (cases h) simp
    moreover have "encode_params ps = []" by (simp add: True encode_params_def)
    ultimately show ?thesis
      using assms(4,5) by (intro exI [of _ u] exI [of _ c]) (auto simp: url_at_def fragment_part_def)
  next
    case False
    then obtain xs where xs: "ps = arr xs" "list_all (\<lambda>x. pm_key x \<noteq> None) xs"
      "if fr = None then xs \<noteq> [\<lparr>pm_key = Some [], pm_val = None\<rparr>] else xs \<noteq> []"
      using assms(1) by (auto simp: params_ok_def)
    then have c: "c = 0x3F" "up_c u = 0x3F"
      using assms(4,5) by (auto simp: encode_params_arr url_at_def split: list.splits)
    have P: "ParseQuery (\<lambda>_. True) u (url_params h) =
        (case query_loop (\<lambda>_. True) False u (arr []) of (t, u, h) \<Rightarrow> EmitVal (\<lambda>_. True) u h t)"
      by (simp add: ParseQuery_def assms(2) arr_def)
    have "\<exists>u1 c1. ParseQuery (\<lambda>_. True) u (url_params h) = (u1, ps) \<and>
        url_at u1 (tl (fragment_part fr)) c1 f \<and> (if fragment_part fr = [] then c1 \<noteq> 0x23 else c1 = 0x23)"
    proof (cases xs)
      case Nil
      then have "fr = None" using xs(3) by (simp split: if_splits)
      then show ?thesis
        using assms(4) c Nil xs(1) unfolding P
        by (intro exI [of _ u] exI [of _ c])
           (simp add: query_loop.simps [of _ _ u] url_at_def fragment_part_def encode_params_arr EmitVal_def)
    next
      case (Cons y ys)
      have at: "url_at u (encode_param y @ concat (map (\<lambda>y. [0x26] @ encode_param y) ys) @ fragment_part fr) 0x3F f"
        using assms(4) c by (simp add: xs(1) Cons encode_params_arr)
      have last: "ys \<noteq> [] \<or> fragment_part fr \<noteq> [] \<or> pm_key y \<noteq> Some [] \<or> pm_val y \<noteq> None"
        using xs(3) Cons by (cases y) (auto simp: fragment_part_def split: if_splits)
      obtain t u1 h1 u2 c2 where "query_loop (\<lambda>_. True) False u (arr []) = (t, u1, h1)"
        "EmitVal (\<lambda>_. True) u1 h1 t = (u2, arr ([] @ y # ys))" "url_at u2 (tl (fragment_part fr)) c2 f"
        "if fragment_part fr = [] then c2 \<noteq> 0x23 else c2 = 0x23"
        by (rule query_run [OF at, where acc = "[]"])
           (use xs(2) Cons last in \<open>auto simp: fragment_part_def split: if_splits\<close>)
      then show ?thesis unfolding P by (auto simp: xs(1) Cons)
    qed
    then obtain u1 c1 where q: "ParseQuery (\<lambda>_. True) u (url_params h) = (u1, ps)"
      "url_at u1 (tl (fragment_part fr)) c1 f" "if fragment_part fr = [] then c1 \<noteq> 0x23 else c1 = 0x23"
      by blast
    show ?thesis by (intro exI [of _ u1] exI [of _ c1] conjI) (use q c(2) in simp_all)
  qed
  then obtain u1 c1 where u1: "(if up_c u = 0x3F then
      (case ParseQuery (\<lambda>_. True) u (url_params h) of (u, ps) \<Rightarrow> (u, h\<lparr>url_params := ps\<rparr>)) else (u, h)) = (u1, ?h)"
    "url_at u1 (tl (fragment_part fr)) c1 f" "if fragment_part fr = [] then c1 \<noteq> 0x23 else c1 = 0x23"
    by blast
  show ?thesis
  proof (cases fr)
    case None
    then have "h\<lparr>url_params := ps, url_fragment := fr\<rparr> = ?h" using assms(3) by (cases h) simp
    then show ?thesis
      using u1 None by (intro that [of u1]) (simp add: url_tail_def url_at_def fragment_part_def)
  next
    case (Some bs)
    obtain u2 where "ParseFragment u1 = (u2, Some bs)"
      using u1(2) ParseFragment_text [of u1 bs c1 f] by (auto simp: fragment_part_def Some EscapeUrlView_def)
    then show ?thesis
      using u1 Some by (intro that [of u2]) (simp add: url_tail_def url_at_def fragment_part_def)
  qed
qed

text \<open>
  The URLs that survive printing and parsing.  Without a host the path has to start with one slash;
  with a host it is empty or starts with a slash.  The two conditions on the parameters are about
  \<open>?\<close>, which is read as no parameters, and \<open>?#x\<close>, which is read as one parameter with an empty name.
\<close>

definition url_ok :: "Url \<Rightarrow> bool" where
  "url_ok h \<longleftrightarrow>
     (case url_scheme h of None \<Rightarrow> True | Some s \<Rightarrow> scheme_ok s) \<and>
     params_ok (url_params h) (url_fragment h) \<and>
     (case url_host h of
        None \<Rightarrow> url_user h = None \<and> url_pass h = None \<and> url_port h = None \<and>
          (case url_path h of Some (c # cs) \<Rightarrow> c = 0x2F \<and> (cs = [] \<or> hd cs \<noteq> 0x2F) | _ \<Rightarrow> False)
      | Some host \<Rightarrow> (url_user h = None \<longrightarrow> url_pass h = None) \<and>
          (url_scheme h = None \<longrightarrow> encode_authority h host \<noteq> []) \<and>
          (case url_path h of Some (c # _) \<Rightarrow> c = 0x2F | _ \<Rightarrow> True))"

text \<open>An empty path after a host is present in the result only when nothing follows it.\<close>

definition url_norm :: "Url \<Rightarrow> Url" where
  "url_norm h =
     (if url_host h \<noteq> None \<and> vlen (url_path h) = 0 then
        h\<lparr>url_path := if ps_p (url_params h) = None \<and> url_fragment h = None then Some [] else None\<rparr>
      else h)"

lemma tail_hd:
  "encode_params ps @ fragment_part fr = [] \<or>
   hd (encode_params ps @ fragment_part fr) = 0x3F \<or> hd (encode_params ps @ fragment_part fr) = 0x23"
  by (auto simp: encode_params_def fragment_part_def)

text \<open>The part of the parser after the authority, when there is a path to read.\<close>

lemma path_tail_text:
  assumes "params_ok ps fr" "url_params h = \<lparr>ps_n = 0, ps_p = None\<rparr>" "url_fragment h = None"
    and "up_s u = escape_bytes kEscapePath bs @ encode_params ps @ fragment_part fr"
    and "up_q u \<le> length (up_p u)" "up_f u AND kUrlOpaque = 0" "up_c u \<noteq> 0x23" "up_c u \<noteq> 0x3F"
  obtains u' where "(case ParsePath u of (u, v) \<Rightarrow> url_tail (\<lambda>_. True) u (h\<lparr>url_path := v\<rparr>)) =
    (u', h\<lparr>url_path := Some (view u @ bs), url_params := ps, url_fragment := fr\<rparr>)"
proof -
  let ?r = "encode_params ps @ fragment_part fr"
  obtain u1 c where u1: "ParsePath u = (u1, Some (view u @ bs))" "url_at u1 (tl ?r) c (up_f u)"
    "if ?r = [] then c \<noteq> 0x23 \<and> c \<noteq> 0x3F else c = hd ?r"
    by (rule ParsePath_text [OF assms(4,5)]) (use assms(6-8) tail_hd [of ps fr] in auto)
  obtain u2 where "url_tail (\<lambda>_. True) u1 (h\<lparr>url_path := Some (view u @ bs)\<rparr>) =
      (u2, h\<lparr>url_path := Some (view u @ bs), url_params := ps, url_fragment := fr\<rparr>)"
    by (rule url_tail_text [OF assms(1) _ _ u1(2), where h = "h\<lparr>url_path := Some (view u @ bs)\<rparr>"]) (use assms(2,3) u1(3) in auto)
  then show ?thesis by (intro that [of u2]) (simp add: u1(1))
qed

lemma url_parts_no_host:
  assumes "params_ok (url_params h) (url_fragment h)" "cs = [] \<or> hd cs \<noteq> 0x2F" "f AND kUrlOpaque = 0"
    and "case url_scheme h of None \<Rightarrow> True | Some s \<Rightarrow> scheme_ok s"
  obtains u where "url_parts (\<lambda>_. True)
      (url_start ((case url_scheme h of None \<Rightarrow> [] | Some s \<Rightarrow> s @ [0x3A]) @ escape_bytes kEscapePath (0x2F # cs) @
         encode_params (url_params h) @ fragment_part (url_fragment h)) 0 f) Url_zero =
    (u, Url_zero\<lparr>url_scheme := url_scheme h, url_path := Some (0x2F # cs), url_params := url_params h,
        url_fragment := url_fragment h\<rparr>)"
proof -
  let ?ps = "url_params h" and ?fr = "url_fragment h"
  let ?r = "escape_bytes kEscapePath cs @ encode_params ?ps @ fragment_part ?fr"
  have slash: "escape_bytes kEscapePath (0x2F # cs) = 0x2F # escape_bytes kEscapePath cs"
    by (simp add: escape_byte_def kEscapePath_eq)
  have hd: "?r = [] \<or> hd ?r \<noteq> 0x2F"
    using assms(2) tail_hd [of ?ps ?fr] by (cases cs) (auto simp: escape_byte_def)
  show ?thesis
  proof (cases "url_scheme h")
    case None
    obtain u1 where u1: "ParseScheme (url_start (0x2F # ?r) 0 f) Url_zero = (False, u1, Url_zero)"
      "up_s u1 = ?r" "up_q u1 = 0" "up_p u1 = [0x2F]" "up_c u1 = 0x2F" "up_f u1 = f"
      using hd by (rule ParseScheme_path)
    obtain u2 where "(case ParsePath u1 of (u, v) \<Rightarrow> url_tail (\<lambda>_. True) u (Url_zero\<lparr>url_path := v\<rparr>)) =
        (u2, Url_zero\<lparr>url_path := Some (view u1 @ cs), url_params := ?ps, url_fragment := ?fr\<rparr>)"
      by (rule path_tail_text [OF assms(1) _ _ u1(2), where h = Url_zero]) (use u1 assms(3) in \<open>simp_all add: Url_zero_def\<close>)
    then show ?thesis
      using None u1 slash
      by (intro that [of u2]) (auto simp: url_parts_eq view_def Url_zero_def split: prod.splits)
  next
    case (Some s)
    obtain u1 where u1: "ParseScheme (url_start (s @ [0x3A, 0x2F] @ ?r) 0 f) Url_zero =
        (False, u1, Url_zero\<lparr>url_scheme := Some s\<rparr>)" "url_at u1 (0x2F # ?r) 0x3A f"
      using ParseScheme_scheme_path [OF _ hd, of s f Url_zero] assms(4) by (auto simp: Some)
    note at = u1(2) [unfolded url_at_def]
    obtain u2 where "(case ParsePath u1 of (u, v) \<Rightarrow> url_tail (\<lambda>_. True) u (Url_zero\<lparr>url_scheme := Some s, url_path := v\<rparr>)) =
        (u2, Url_zero\<lparr>url_scheme := Some s, url_path := Some (view u1 @ 0x2F # cs), url_params := ?ps, url_fragment := ?fr\<rparr>)"
      by (rule path_tail_text [OF assms(1), of "Url_zero\<lparr>url_scheme := Some s\<rparr>" u1 "0x2F # cs"])
         (use at assms(3) slash in \<open>simp_all add: Url_zero_def\<close>)
    then show ?thesis
      using Some u1(1) slash at
      by (intro that [of u2]) (auto simp: url_parts_eq view_def split: prod.splits)
  qed
qed

lemma ParseScheme_any_host:
  assumes "case s of None \<Rightarrow> True | Some s \<Rightarrow> scheme_ok s"
  obtains u c where "ParseScheme (url_start ((case s of None \<Rightarrow> [] | Some s \<Rightarrow> s @ [0x3A]) @ [0x2F, 0x2F] @ r) 0 f) Url_zero =
      (True, u, Url_zero\<lparr>url_scheme := s\<rparr>)" "url_at u r c f" "c = (if s = None then 0x2F else 0x3A)"
proof (cases s)
  case None
  obtain u where "ParseScheme (url_start (0x2F # 0x2F # r) 0 f) Url_zero = (True, u, Url_zero)" "url_at u r 0x2F f"
    by (rule ParseScheme_host)
  moreover have "Url_zero\<lparr>url_scheme := None\<rparr> = Url_zero" by (simp add: Url_zero_def)
  ultimately show ?thesis by (intro that [of u "0x2F"]) (simp_all add: None)
next
  case (Some s')
  obtain u where "ParseScheme (url_start (s' @ [0x3A, 0x2F, 0x2F] @ r) 0 f) Url_zero =
      (True, u, Url_zero\<lparr>url_scheme := Some s'\<rparr>)" "url_at u r 0x3A f"
    by (rule ParseScheme_scheme_host [of s']) (use assms in \<open>simp add: Some\<close>)
  then show ?thesis by (intro that [of u "0x3A"]) (simp_all add: Some)
qed

lemma url_parts_host:
  assumes "params_ok (url_params h) (url_fragment h)" "path = [] \<or> hd path = 0x2F" "f AND kUrlOpaque = 0"
    and "case url_scheme h of None \<Rightarrow> True | Some s \<Rightarrow> scheme_ok s"
    and "url_user h = None \<Longrightarrow> url_pass h = None" "url_scheme h = None \<Longrightarrow> encode_authority h host \<noteq> []"
  obtains u where "url_parts (\<lambda>_. True)
      (url_start ((case url_scheme h of None \<Rightarrow> [] | Some s \<Rightarrow> s @ [0x3A]) @ [0x2F, 0x2F] @ encode_authority h host @
         escape_bytes kEscapePath path @ encode_params (url_params h) @ fragment_part (url_fragment h)) 0 f) Url_zero =
    (u, Url_zero\<lparr>url_scheme := url_scheme h, url_user := url_user h, url_pass := url_pass h, url_host := Some host,
        url_port := url_port h,
        url_path := if path = [] \<and> encode_params (url_params h) @ fragment_part (url_fragment h) \<noteq> [] then None else Some path,
        url_params := url_params h, url_fragment := url_fragment h\<rparr>)"
proof -
  let ?ps = "url_params h" and ?fr = "url_fragment h"
  let ?t = "encode_params ?ps @ fragment_part ?fr"
  let ?r = "escape_bytes kEscapePath path @ ?t"
  have slash: "escape_byte kEscapePath 0x2F = [0x2F]" by (simp add: escape_byte_def kEscapePath_eq)
  have r: "?r \<noteq> [] \<Longrightarrow> hd ?r = (if path = [] then hd ?t else 0x2F)" "tl ?r = (if path = [] then tl ?t else escape_bytes kEscapePath (tl path) @ ?t)"
    using assms(2) by (cases path; auto simp: escape_byte_def kEscapePath_eq)+
  obtain u1 c where u1: "ParseScheme (url_start ((case url_scheme h of None \<Rightarrow> [] | Some s \<Rightarrow> s @ [0x3A]) @ [0x2F, 0x2F] @
      encode_authority h host @ ?r) 0 f) Url_zero = (True, u1, Url_zero\<lparr>url_scheme := url_scheme h\<rparr>)"
    "url_at u1 (encode_authority h host @ ?r) c f" "c = (if url_scheme h = None then 0x2F else 0x3A)"
    using assms(4) by (rule ParseScheme_any_host)
  let ?h1 = "Url_zero\<lparr>url_scheme := url_scheme h\<rparr>"
  let ?h2 = "?h1\<lparr>url_user := url_user h, url_pass := url_pass h, url_host := Some host, url_port := url_port h\<rparr>"
  have z: "url_params ?h2 = \<lparr>ps_n = 0, ps_p = None\<rparr>" "url_fragment ?h2 = None" by (simp_all add: Url_zero_def)
  obtain u2 where u2: "ParseAuthority u1 ?h1 = (u2, ?h2)" "up_s u2 = tl ?r" "up_f u2 = f" "up_q u2 \<le> length (up_p u2)"
    "view u2 = (if ?r \<noteq> [] \<and> hd ?r = 0x2F then [0x2F] else [])"
    "if ?r = [] then up_c u2 \<notin> {0x23, 0x2F, 0x3F} else up_c u2 = hd ?r"
    by (rule ParseAuthority_text [OF u1(2) assms(5), of ?h1])
       (use u1(3) r(1) tail_hd [of ?ps ?fr] assms(6) in \<open>auto simp: Url_zero_def split: if_splits\<close>)
  let ?parts = "url_parts (\<lambda>_. True)
      (url_start ((case url_scheme h of None \<Rightarrow> [] | Some s \<Rightarrow> s @ [0x3A]) @ [0x2F, 0x2F] @ encode_authority h host @ ?r) 0 f) Url_zero"
  have parts: "?parts = (case (if up_c u2 \<noteq> 0x23 \<and> up_c u2 \<noteq> 0x3F then
      (case ParsePath u2 of (u, v) \<Rightarrow> (u, ?h2\<lparr>url_path := v\<rparr>)) else (u2, ?h2)) of (u, h) \<Rightarrow> url_tail (\<lambda>_. True) u h)"
    unfolding url_parts_eq u1(1) by (simp add: u2(1))
  show ?thesis
  proof (cases "path = [] \<and> ?t \<noteq> []")
    case True
    have q: "url_at u2 (tl ?t) (hd ?t) f"
      using u2 r True tail_hd [of ?ps ?fr] by (auto simp: url_at_def view_def)
    obtain u3 where "url_tail (\<lambda>_. True) u2 ?h2 = (u3, ?h2\<lparr>url_params := ?ps, url_fragment := ?fr\<rparr>)"
      by (rule url_tail_text [OF assms(1) z q]) (use True in auto)
    moreover have "up_c u2 = 0x3F \<or> up_c u2 = 0x23" using q True tail_hd [of ?ps ?fr] by (auto simp: url_at_def)
    ultimately have run: "?parts = (u3, ?h2\<lparr>url_params := ?ps, url_fragment := ?fr\<rparr>)"
      using parts by (elim disjE) simp_all
    show ?thesis by (rule that, subst run) (use True in \<open>simp add: Url_zero_def\<close>)
  next
    case False
    have c: "up_c u2 \<noteq> 0x23 \<and> up_c u2 \<noteq> 0x3F \<and> up_s u2 = escape_bytes kEscapePath (tl path) @ ?t \<and> view u2 @ tl path = path"
    proof (cases path)
      case Nil
      then have "?t = []" "?r = []" using False by simp_all
      then show ?thesis using u2(2,5,6) Nil by simp
    next
      case (Cons x xs)
      then have "?r \<noteq> []" "hd ?r = 0x2F" "tl ?r = escape_bytes kEscapePath xs @ ?t" "x = 0x2F"
        using assms(2) by (simp_all add: slash)
      then show ?thesis using u2(2,5,6) Cons by simp
    qed
    obtain u3 where "(case ParsePath u2 of (u, v) \<Rightarrow> url_tail (\<lambda>_. True) u (?h2\<lparr>url_path := v\<rparr>)) =
        (u3, ?h2\<lparr>url_path := Some (view u2 @ tl path), url_params := ?ps, url_fragment := ?fr\<rparr>)"
      by (rule path_tail_text [OF assms(1) z c [THEN conjunct2, THEN conjunct2, THEN conjunct1] u2(4)]) (use c u2(3) assms(3) in simp_all)
    then have run: "?parts = (u3, ?h2\<lparr>url_path := Some path, url_params := ?ps, url_fragment := ?fr\<rparr>)"
      using parts c by (simp add: split_beta)
    show ?thesis by (rule that, subst run) (use False in \<open>simp add: Url_zero_def\<close>)
  qed
qed

lemma encode_scheme:
  "(case sc of None \<Rightarrow> True | Some s \<Rightarrow> scheme_ok s) \<Longrightarrow>
   (case sc of Some s \<Rightarrow> if length s \<noteq> 0 then s @ [0x3A] else [] | None \<Rightarrow> []) =
   (case sc of None \<Rightarrow> [] | Some s \<Rightarrow> s @ [0x3A])"
  by (auto simp: scheme_ok_def split: option.splits)

lemma url_parts_encode_no_host:
  assumes "url_ok h" "f AND kUrlOpaque = 0" and None: "url_host h = None"
  shows "\<exists>u. url_parts (\<lambda>_. True) (url_start (encode_url h) 0 f) Url_zero = (u, url_norm h)"
proof -
  note ok = assms(1) [unfolded url_ok_def]
  note scheme = encode_scheme [OF ok [THEN conjunct1]]
  obtain cs where cs: "url_path h = Some (0x2F # cs)" "cs = [] \<or> hd cs \<noteq> 0x2F"
    using ok None by (auto split: option.splits list.splits)
  have "encode_url h = (case url_scheme h of None \<Rightarrow> [] | Some s \<Rightarrow> s @ [0x3A]) @ escape_bytes kEscapePath (0x2F # cs) @
      encode_params (url_params h) @ fragment_part (url_fragment h)"
    unfolding encode_url_def scheme by (simp add: None cs(1) fragment_part_def EscapeUrlView_def)
  moreover have "url_norm h = Url_zero\<lparr>url_scheme := url_scheme h, url_path := Some (0x2F # cs), url_params := url_params h,
      url_fragment := url_fragment h\<rparr>"
    using ok None cs(1) by (cases h) (simp add: url_norm_def Url_zero_def)
  moreover obtain u where "url_parts (\<lambda>_. True)
    (url_start ((case url_scheme h of None \<Rightarrow> [] | Some s \<Rightarrow> s @ [0x3A]) @ escape_bytes kEscapePath (0x2F # cs) @
       encode_params (url_params h) @ fragment_part (url_fragment h)) 0 f) Url_zero =
    (u, Url_zero\<lparr>url_scheme := url_scheme h, url_path := Some (0x2F # cs), url_params := url_params h,
      url_fragment := url_fragment h\<rparr>)"
    by (rule url_parts_no_host [OF _ cs(2) assms(2)]) (use ok in auto)
  ultimately show ?thesis by (intro exI [of _ u]) (simp only:)
qed

lemma url_parts_encode_host:
  assumes "url_ok h" "f AND kUrlOpaque = 0" and Some: "url_host h = Some host"
  shows "\<exists>u. url_parts (\<lambda>_. True) (url_start (encode_url h) 0 f) Url_zero = (u, url_norm h)"
proof -
  note ok = assms(1) [unfolded url_ok_def]
  note scheme = encode_scheme [OF ok [THEN conjunct1]]
  define path where "path = (case url_path h of None \<Rightarrow> [] | Some p \<Rightarrow> p)"
  have p: "path = [] \<or> hd path = 0x2F"
    using ok Some by (auto simp: path_def split: option.splits list.splits)
  have "encode_url h = (case url_scheme h of None \<Rightarrow> [] | Some s \<Rightarrow> s @ [0x3A]) @ [0x2F, 0x2F] @ encode_authority h host @
       escape_bytes kEscapePath path @ encode_params (url_params h) @ fragment_part (url_fragment h)"
    unfolding encode_url_def scheme
    using ok by (auto simp: Some path_def fragment_part_def EscapeUrlView_def split: option.splits list.splits)
  moreover have "(encode_params (url_params h) @ fragment_part (url_fragment h) \<noteq> []) =
      (\<not> (ps_p (url_params h) = None \<and> url_fragment h = None))"
    by (simp add: encode_params_def fragment_part_def)
  then have "url_norm h = Url_zero\<lparr>url_scheme := url_scheme h, url_user := url_user h, url_pass := url_pass h, url_host := Some host,
      url_port := url_port h,
      url_path := if path = [] \<and> encode_params (url_params h) @ fragment_part (url_fragment h) \<noteq> [] then None else Some path,
      url_params := url_params h, url_fragment := url_fragment h\<rparr>"
    using Some by (cases h) (auto simp: url_norm_def Url_zero_def path_def vlen_def split: option.splits)
  moreover obtain u where "url_parts (\<lambda>_. True)
    (url_start ((case url_scheme h of None \<Rightarrow> [] | Some s \<Rightarrow> s @ [0x3A]) @ [0x2F, 0x2F] @ encode_authority h host @
       escape_bytes kEscapePath path @ encode_params (url_params h) @ fragment_part (url_fragment h)) 0 f) Url_zero =
    (u, Url_zero\<lparr>url_scheme := url_scheme h, url_user := url_user h, url_pass := url_pass h, url_host := Some host,
      url_port := url_port h,
      url_path := if path = [] \<and> encode_params (url_params h) @ fragment_part (url_fragment h) \<noteq> [] then None else Some path,
      url_params := url_params h, url_fragment := url_fragment h\<rparr>)"
    by (rule url_parts_host [OF _ p assms(2)]) (use ok Some in auto)
  ultimately show ?thesis by (intro exI [of _ u]) (simp only:)
qed


definition url_example :: Url where
  "url_example = \<lparr>url_scheme = Some (str ''http''), url_user = Some (str ''u''), url_pass = None,
     url_host = Some (str ''a.b''), url_port = Some (str ''80''), url_path = Some (str ''/x y''),
     url_params = arr [\<lparr>pm_key = Some (str ''k''), pm_val = Some (str ''v&'')\<rparr>], url_fragment = None\<rparr>"

lemma encode_example: "encode_url url_example = str ''http://u@a.b:80/x%20y?k=v%26''"
  by (simp add: url_example_def encode_url_def encode_authority_def encode_params_arr encode_param_def
      EscapeUrlView_def NeedsSquareBrackets_def escape_byte_def hexdigits_upper_def str_def
      kEscapeAuthority_eq kEscapePath_eq kEscapeParam_eq isalnum_def isdigit_def isupper_def islower_def)


subsection \<open>Corner cases\<close>

text \<open>A URL of two slashes gets the path \<open>/\<close>: \<open>ParseAuthority\<close> reads no byte and takes the slash that
  \<open>ParseScheme\<close> has left in \<open>u->c\<close> for the one that ends the authority.\<close>

lemma ParseUrl_two_slashes:
  "ParseUrl (\<lambda>_. True) (Buf [0x2F, 0x2F]) 0 = (Some [0x2F], Url_zero\<lparr>url_host := Some [], url_path := Some [0x2F]\<rparr>)"
  by (simp add: ParseUrl_def url_parts_def url_start_def ParseScheme.simps ParseAuthority_def authority_loop.simps
      ParsePath_def path_loop.simps Let_def view_def next_view_def emit_def advance_url_def)

text \<open>When the array cannot grow, the number of parameters is one more than the array holds.\<close>

lemma EmitKey_out_of_memory:
  "\<not> al ((ps_n h + 1) * sizeof_UrlParam) \<Longrightarrow> EmitKey al u h = (False, u, h\<lparr>ps_n := ps_n h + 1\<rparr>)"
  by (simp add: EmitKey_def)

text \<open>\<open>EscapeIp\<close> escapes the colon, as \<open>EscapeHost\<close> does.\<close>

lemma EscapeIp_EscapeHost: "EscapeIp = EscapeHost"
  by (simp add: EscapeIp_def EscapeHost_def fun_eq_iff)

text \<open>An IPv6 address with a zero is printed without brackets, text that is no address with them.\<close>

lemma NeedsSquareBrackets_zero:
  "\<not> NeedsSquareBrackets (str ''2001:db8::1'') None" "NeedsSquareBrackets (str ''x:y'') None"
  by (simp_all add: NeedsSquareBrackets_def str_def kHexToInt_eq)

end
