(* ===== verification/Decimal.thy ===== *)
theory Decimal
  imports Http_Tables
begin

text \<open>
  Decimal numerals: the value of a string of digits, which the parsers of numbers compute digit by digit
  with a bound that they test after every step, and the numeral of a number.
\<close>

definition digit_val :: "byte \<Rightarrow> nat" where
  "digit_val c = unat c - 0x30"

definition dec_from :: "nat \<Rightarrow> bytes \<Rightarrow> nat" where
  "dec_from v cs = foldl (\<lambda>v c. v * 10 + digit_val c) v cs"

abbreviation dec_val :: "bytes \<Rightarrow> nat" where
  "dec_val \<equiv> dec_from 0"

lemma dec_from_simps [simp]:
  "dec_from v [] = v" "dec_from v (c # cs) = dec_from (v * 10 + digit_val c) cs"
  "dec_from v (cs @ [c]) = dec_from v cs * 10 + digit_val c"
  by (simp_all add: dec_from_def)

lemma dec_from_append: "dec_from v (cs @ ds) = dec_from (dec_from v cs) ds"
  by (simp add: dec_from_def)

lemma dec_from_ge: "v \<le> dec_from v cs"
proof (induction cs arbitrary: v)
  case (Cons c cs)
  have "v \<le> v * 10 + digit_val c" by simp
  also have "\<dots> \<le> dec_from (v * 10 + digit_val c) cs" by (rule Cons.IH)
  finally show ?case by simp
qed simp

lemma dec_from_mono: "v \<le> w \<Longrightarrow> dec_from v cs \<le> dec_from w cs"
  by (induction cs arbitrary: v w) auto

lemma dec_from_bound: "dec_from v cs \<le> b \<Longrightarrow> v \<le> b"
  using dec_from_ge order_trans by blast

lemma digit_val_le: "isdigit c \<Longrightarrow> digit_val c \<le> 9"
  by (auto simp: isdigit_def digit_val_def word_le_nat_alt)

definition digit_byte :: "nat \<Rightarrow> byte" where
  "digit_byte d = of_nat (0x30 + d)"

lemma unat_digit_byte: "d < 10 \<Longrightarrow> unat (digit_byte d) = 0x30 + d"
  unfolding digit_byte_def by (subst unat_of_nat) (simp add: take_bit_nat_eq_self)

lemma digit_byte: "d < 10 \<Longrightarrow> isdigit (digit_byte d)" "d < 10 \<Longrightarrow> digit_val (digit_byte d) = d"
  by (simp_all add: isdigit_def digit_val_def word_le_nat_alt unat_digit_byte)

fun dec_str :: "nat \<Rightarrow> bytes" where
  "dec_str n = (if n < 10 then [digit_byte n] else dec_str (n div 10) @ [digit_byte (n mod 10)])"

declare dec_str.simps [simp del]

lemma dec_str_digits: "list_all isdigit (dec_str n)"
  by (induction n rule: dec_str.induct) (subst dec_str.simps, auto simp: digit_byte)

lemma dec_str_neq_Nil [simp]: "dec_str n \<noteq> []"
  by (subst dec_str.simps) simp

lemma dec_val_dec_str [simp]: "dec_val (dec_str n) = n"
proof (induction n rule: dec_str.induct)
  case (1 n)
  then show ?case by (subst dec_str.simps) (simp add: digit_byte)
qed

lemma isdigit_chars: "isdigit c \<Longrightarrow> c \<notin> {0x2C, 0x2D, 0x2E, 0x2F, 0x3A}"
  by (auto simp: isdigit_def word_le_nat_alt)

end
