(* ===== verification/Http_Paths.thy ===== *)
theory Http_Paths
  imports Http_Escape Http_Names Decimal
begin

text \<open>
  The predicates on parts of a request: \<open>IsAcceptablePath\<close>, \<open>IsReasonablePath\<close>, \<open>IsAcceptableHost\<close>,
  \<open>IsAcceptablePort\<close>, \<open>IsMimeType\<close>, \<open>IsValidCookieValue\<close> and \<open>IsValidHttpToken\<close>.  Each loop is shown to
  decide a property of the segments of the path, the labels of the host or the value of the number.
\<close>

subsection \<open>Paths\<close>

definition fix_slash :: "wint \<Rightarrow> wint" where
  "fix_slash x = (if x = 0x5C then 0x2F else x)"

text \<open>\<open>d\<close> is \<open>data\<close>; the bytes before \<open>p\<close> are counted by what is left of it.\<close>

function acceptable_loop :: "bytes \<Rightarrow> bool \<Rightarrow> wint \<Rightarrow> bytes \<Rightarrow> bool" where
  "acceptable_loop d t y [] = True"
| "acceptable_loop d t y (c # cs) =
     (case tp_next c cs of (x, p) \<Rightarrow>
       (let x = fix_slash x in
        if y = 0x2F \<and> x = 0x2E \<and>
           (length d - length p > 2 \<or> length d < 13 \<or> take 13 d \<noteq> str ''/.well-known/'') then False
        else if y = 0x2F \<and> x = 0x2F \<and> t then False
        else acceptable_loop d True x p))"
  by pat_completeness auto
termination
  by (relation "measure (\<lambda>(d, t, y, p). length p)") (auto dest!: sym [of _ "tp_next _ _"] tp_next_length)

definition IsAcceptablePath :: "cstr \<Rightarrow> bool" where
  "IsAcceptablePath s = (let d = arg_bytes s in acceptable_loop d False 0x2F d)"

function reasonable_loop :: "wint \<Rightarrow> wint \<Rightarrow> wint \<Rightarrow> bytes \<Rightarrow> bool" where
  "reasonable_loop z y x [] =
     (if y = 0x2F \<and> x = 0x2E then False
      else if z = 0x2F \<and> y = 0x2E \<and> x = 0x2E then False
      else True)"
| "reasonable_loop z y x (c # cs) =
     (case tp_next c cs of (x, p) \<Rightarrow>
       (let x = fix_slash x in
        if z = 0x2F \<and> y = 0x2E \<and> x = 0x2F then False
        else if z = 0x2F \<and> y = 0x2E \<and> x = 0x2E then False
        else reasonable_loop y x x p))"
  by pat_completeness auto
termination
  by (relation "measure (\<lambda>(z, y, x, p). length p)") (auto dest!: sym [of _ "tp_next _ _"] tp_next_length)

definition IsReasonablePath :: "cstr \<Rightarrow> bool" where
  "IsReasonablePath s = reasonable_loop 0x2F 0x2F 0x2F (arg_bytes s)"

subsection \<open>Hosts and ports\<close>

definition DNS_NAME_MAX :: nat where "DNS_NAME_MAX = 253"

text \<open>
  \<open>prev\<close> is \<open>s[i - 1]\<close>, \<open>None\<close> for \<open>i = 0\<close>.  The value \<open>b\<close> of the current number is computed by the source and
  never used.
\<close>

fun host_name_loop :: "byte option \<Rightarrow> bytes \<Rightarrow> bool" where
  "host_name_loop prev [] = True"
| "host_name_loop prev (c # cs) =
     (if kHostChars c = 0 \<and> (c \<noteq> 0x2E \<or> prev = None \<or> prev = Some 0x2E) then False
      else host_name_loop (Some c) cs)"

fun host_loop :: "byte option \<Rightarrow> nat \<Rightarrow> bytes \<Rightarrow> bool" where
  "host_loop prev j [] = (if j \<noteq> 3 then False else if prev = Some 0x2E then False else True)"
| "host_loop prev j (c # cs) =
     (if isdigit c then host_loop (Some c) j cs
      else if c = 0x2E then
        if prev = None \<or> prev = Some 0x2E then False else host_loop (Some c) (j + 1) cs
      else host_name_loop prev (c # cs))"

definition IsAcceptableHost :: "cstr \<Rightarrow> bool" where
  "IsAcceptableHost s =
     (let h = arg_bytes s; n = length h in
      if n = 0 then True else if n > DNS_NAME_MAX then False else host_loop None 0 h)"

fun port_loop :: "nat \<Rightarrow> bytes \<Rightarrow> bool" where
  "port_loop p [] = True"
| "port_loop p (c # cs) =
     (if 0x30 \<le> c \<and> c \<le> 0x39 then
        (let p = p * 10 + (unat c - 0x30) in if p > 65535 then False else port_loop p cs)
      else False)"

definition IsAcceptablePort :: "cstr \<Rightarrow> bool" where
  "IsAcceptablePort s = port_loop 0 (arg_bytes s)"

subsection \<open>Types, cookies and tokens\<close>

text \<open>\<open>s\<close> is a string that ends with NUL; the list holds the bytes before it.\<close>

fun mime_loop :: "bytes \<Rightarrow> bytes \<Rightarrow> bool" where
  "mime_loop [] s = (s = [])"
| "mime_loop (c # t) [] = (kHttpToken c = 0)"
| "mime_loop (c # t) (d # s) = (if kToLower d \<noteq> kToLower c then False else mime_loop t s)"

definition IsMimeType :: "cstr \<Rightarrow> bytes \<Rightarrow> bool" where
  "IsMimeType t s = mime_loop (arg_bytes t) s"

definition IsCookieOctet :: "byte \<Rightarrow> bool" where
  "IsCookieOctet i \<longleftrightarrow> i > 0x20 \<and> i < 0x7F \<and> i \<noteq> 0x2C \<and> i \<noteq> 0x3B \<and> i \<noteq> 0x5C \<and> i \<noteq> 0x20 \<and> i \<noteq> 0x22"

primrec cookie_loop :: "bytes \<Rightarrow> bool" where
  "cookie_loop [] = True"
| "cookie_loop (c # cs) = (if \<not> IsCookieOctet c then False else cookie_loop cs)"

definition IsValidCookieValue :: "cstr \<Rightarrow> bool" where
  "IsValidCookieValue s = cookie_loop (arg_bytes s)"

primrec token_loop :: "bytes \<Rightarrow> bool" where
  "token_loop [] = True"
| "token_loop (c # cs) = (if kHttpToken c = 0 then False else token_loop cs)"

text \<open>The test for \<open>n = 0\<close> comes before the length of a string without one is known.\<close>

definition IsValidHttpToken :: "cstr \<Rightarrow> bool" where
  "IsValidHttpToken s = (if s = Buf [] then False else token_loop (arg_bytes s))"

subsection \<open>Segments\<close>

text \<open>The pieces between the separators \<open>d\<close>.\<close>

fun split_on :: "'a \<Rightarrow> 'a list \<Rightarrow> 'a list list" where
  "split_on d [] = [[]]"
| "split_on d (x # xs) =
     (if x = d then [] # split_on d xs else (x # hd (split_on d xs)) # tl (split_on d xs))"

lemma split_on_neq_Nil [simp]: "split_on d xs \<noteq> []"
  by (cases xs) auto

lemma split_on_Cons [simp]: "hd (split_on d xs) # tl (split_on d xs) = split_on d xs"
  by simp

lemma split_on_append_sep: "d \<notin> set xs \<Longrightarrow> split_on d (xs @ d # ys) = xs # split_on d ys"
  by (induction xs) auto

definition path_segments :: "bytes \<Rightarrow> wint list list" where
  "path_segments p = split_on 0x2F (map fix_slash (tp_decode p))"

text \<open>The loop on code points, without the exception for \<open>/.well-known/\<close>.\<close>

fun acceptable_codes :: "bool \<Rightarrow> wint \<Rightarrow> wint list \<Rightarrow> bool" where
  "acceptable_codes t y [] = True"
| "acceptable_codes t y (x # xs) =
     (if y = 0x2F \<and> x = 0x2E then False else if y = 0x2F \<and> x = 0x2F \<and> t then False
      else acceptable_codes True x xs)"

definition dotless :: "wint list \<Rightarrow> bool" where
  "dotless s \<longleftrightarrow> s = [] \<or> hd s \<noteq> 0x2E"

lemma acceptable_codes_segments:
  "acceptable_codes True 0x2F xs \<longleftrightarrow>
     list_all dotless (split_on 0x2F xs) \<and> [] \<notin> set (butlast (split_on 0x2F xs))"
  "y \<noteq> 0x2F \<Longrightarrow> acceptable_codes t y xs \<longleftrightarrow>
     list_all dotless (tl (split_on 0x2F xs)) \<and> [] \<notin> set (butlast (tl (split_on 0x2F xs)))"
proof (induction xs arbitrary: t y)
  case (Cons x xs)
  {
    case 1
    have "list_all dotless (split_on 0x2F xs) \<longleftrightarrow> dotless (hd (split_on 0x2F xs)) \<and> list_all dotless (tl (split_on 0x2F xs))"
      by (metis list.pred_inject(2) split_on_Cons)
    then show ?case using Cons.IH(1) Cons.IH(2) [of x True] by (auto simp: dotless_def)
  next
    case 2
    then show ?case using Cons.IH(1) Cons.IH(2) [of x True] by auto
  }
qed (simp_all add: dotless_def)

lemma acceptable_codes_start:
  "acceptable_codes False 0x2F xs \<longleftrightarrow>
     list_all dotless (split_on 0x2F xs) \<and> [] \<notin> set (butlast (tl (split_on 0x2F xs)))"
  using acceptable_codes_segments(1) [of "tl xs"] acceptable_codes_segments(2) [of "hd xs" True "tl xs"]
  by (cases xs) (auto simp: dotless_def)

definition well_known :: "bytes \<Rightarrow> bool" where
  "well_known d \<longleftrightarrow> take 13 d = str ''/.well-known/''"

lemma acceptable_loop_codes:
  "\<not> well_known d \<or> length p + 2 \<le> length d \<Longrightarrow>
   acceptable_loop d t y p = acceptable_codes t y (map fix_slash (tp_decode p))"
proof (induction d t y p rule: acceptable_loop.induct)
  case (2 d t y c cs)
  obtain x p where n: "tp_next c cs = (x, p)" by fastforce
  have l: "length p \<le> length cs" using n by (rule tp_next_length)
  have k: "length d - length p > 2 \<or> length d < 13 \<or> take 13 d \<noteq> str ''/.well-known/''"
    using "2.prems" l by (auto simp: well_known_def)
  have "\<not> well_known d \<or> length p + 2 \<le> length d" using "2.prems" l by auto
  then show ?case using "2.IH" [OF n [symmetric] refl] k by (auto simp: n Let_def)
qed simp

lemma well_known_split:
  assumes "well_known d"
  obtains r where "d = [0x2F] @ str ''.well-known'' @ [0x2F] @ r"
proof -
  have "d = str ''/.well-known/'' @ drop 13 d" using assms by (metis append_take_drop_id well_known_def)
  then show ?thesis by (intro that [of "drop 13 d"]) (simp add: str_def)
qed

definition well_known_codes :: "wint list" where
  "well_known_codes = map ucast (str ''.well-known'')"

lemma tp_decode_well_known:
  "tp_decode ([0x2F] @ str ''.well-known'' @ [0x2F] @ r) = 0x2F # well_known_codes @ 0x2F # tp_decode r"
proof -
  have "tp_decode (([0x2F] @ str ''.well-known'' @ [0x2F]) @ r) =
      map ucast ([0x2F] @ str ''.well-known'' @ [0x2F] :: bytes) @ tp_decode r"
    by (rule tp_decode_ascii) (simp add: str_def)
  then show ?thesis by (simp add: well_known_codes_def)
qed

lemma well_known_codes_plain [simp]:
  "map fix_slash well_known_codes = well_known_codes" "0x2F \<notin> set well_known_codes" "well_known_codes \<noteq> []"
  by (simp_all add: well_known_codes_def fix_slash_def str_def)

lemma acceptable_codes_text:
  "0x2F \<notin> set w \<Longrightarrow> y \<noteq> 0x2F \<Longrightarrow> acceptable_codes t y (w @ 0x2F # xs) = acceptable_codes True 0x2F xs"
  by (induction w arbitrary: t y) auto

lemma acceptable_loop_well_known:
  assumes "d = [0x2F] @ str ''.well-known'' @ [0x2F] @ r"
  shows "acceptable_loop d False 0x2F d = acceptable_codes True 0x2F (map fix_slash (tp_decode r))"
proof -
  let ?p = "str ''well-known'' @ [0x2F] @ r"
  have d: "d = 0x2F # 0x2E # ?p" using assms by (simp add: str_def)
  have len: "take 13 d = str ''/.well-known/''" "length d \<ge> 13" by (simp_all add: assms str_def)
  have "acceptable_loop d False 0x2F d = acceptable_loop d True 0x2E ?p"
  proof -
    have n: "tp_next 0x2F cs = (0x2F, cs)" "tp_next 0x2E cs = (0x2E, cs)" for cs by (simp_all add: tp_next_def)
    have "acceptable_loop d False 0x2F (0x2F # 0x2E # ?p) = acceptable_loop d True 0x2E ?p"
      using len by (simp add: n fix_slash_def) (simp add: d)
    then show ?thesis using d by simp
  qed
  also have "\<dots> = acceptable_codes True 0x2E (map fix_slash (tp_decode ?p))"
    by (rule acceptable_loop_codes) (simp add: d)
  also have "tp_decode ?p = map ucast (str ''well-known'') @ 0x2F # tp_decode r"
    using tp_decode_ascii [of "str ''well-known'' @ [0x2F]" r] by (simp add: str_def)
  also have "acceptable_codes True 0x2E (map fix_slash (map ucast (str ''well-known'') @ 0x2F # tp_decode r)) =
      acceptable_codes True 0x2F (map fix_slash (tp_decode r))"
    using acceptable_codes_text [of "map fix_slash (map ucast (str ''well-known''))" "0x2E"]
    by (simp add: str_def fix_slash_def)
  finally show ?thesis .
qed

lemma IsAcceptablePath_segments:
  "IsAcceptablePath s \<longleftrightarrow>
     (let ss = path_segments (arg_bytes s) in
      list_all dotless (if well_known (arg_bytes s) then drop 2 ss else ss) \<and> [] \<notin> set (butlast (tl ss)))"
proof (cases "well_known (arg_bytes s)")
  case False
  then show ?thesis
    by (simp add: IsAcceptablePath_def acceptable_loop_codes acceptable_codes_start path_segments_def Let_def)
next
  case True
  obtain r where r: "arg_bytes s = [0x2F] @ str ''.well-known'' @ [0x2F] @ r" using True by (rule well_known_split)
  have "path_segments (arg_bytes s) = [] # well_known_codes # split_on 0x2F (map fix_slash (tp_decode r))"
    unfolding path_segments_def r tp_decode_well_known using split_on_append_sep [OF well_known_codes_plain(2)]
    by (simp add: fix_slash_def)
  moreover have "IsAcceptablePath s = acceptable_codes True 0x2F (map fix_slash (tp_decode r))"
    unfolding IsAcceptablePath_def Let_def by (rule acceptable_loop_well_known [OF r])
  ultimately show ?thesis
    using True well_known_codes_plain(3) by (auto simp: acceptable_codes_segments simp del: well_known_codes_plain(3))
qed

subsection \<open>Reasonable paths\<close>

definition undotted :: "wint list \<Rightarrow> bool" where
  "undotted s \<longleftrightarrow> s \<noteq> [0x2E] \<and> take 2 s \<noteq> [0x2E, 0x2E]"

fun reasonable_codes :: "wint \<Rightarrow> wint \<Rightarrow> wint list \<Rightarrow> bool" where
  "reasonable_codes z y [] = (\<not> (z = 0x2F \<and> y = 0x2E))"
| "reasonable_codes z y (x # xs) = (\<not> (z = 0x2F \<and> y = 0x2E \<and> (x = 0x2F \<or> x = 0x2E)) \<and> reasonable_codes y x xs)"

lemma reasonable_loop_codes:
  "x = y \<Longrightarrow> reasonable_loop z y x p = reasonable_codes z y (map fix_slash (tp_decode p))"
proof (induction z y x p rule: reasonable_loop.induct)
  case (2 z y x c cs)
  then show ?case by (auto simp: Let_def split: prod.splits)
qed auto

lemma reasonable_codes_segments:
  "reasonable_codes z 0x2F xs \<longleftrightarrow> list_all undotted (split_on 0x2F xs)"
  "reasonable_codes 0x2F 0x2E xs \<longleftrightarrow>
     undotted (0x2E # hd (split_on 0x2F xs)) \<and> list_all undotted (tl (split_on 0x2F xs))"
  "y \<noteq> 0x2F \<Longrightarrow> \<not> (z = 0x2F \<and> y = 0x2E) \<Longrightarrow>
     reasonable_codes z y xs \<longleftrightarrow> list_all undotted (tl (split_on 0x2F xs))"
proof (induction xs arbitrary: z y)
  case (Cons x xs)
  have l: "list_all undotted (split_on 0x2F xs) \<longleftrightarrow>
      undotted (hd (split_on 0x2F xs)) \<and> list_all undotted (tl (split_on 0x2F xs))"
    by (metis list.pred_inject(2) split_on_Cons)
  {
    case 1
    show ?case using Cons.IH(1) [of "0x2F"] Cons.IH(2) Cons.IH(3) [of x "0x2F"] l by (auto simp: undotted_def)
  next
    case 2
    show ?case using Cons.IH(1) [of "0x2E"] Cons.IH(3) [of x "0x2E"] l by (auto simp: undotted_def)
  next
    case 3
    then show ?case using Cons.IH(1) [of y] Cons.IH(3) [of x y] l by auto
  }
qed (simp_all add: undotted_def)

lemma dotless_undotted: "dotless s \<Longrightarrow> undotted s"
  by (cases s) (auto simp: dotless_def undotted_def)


lemma IsAcceptablePath_undotted:
  assumes "IsAcceptablePath s"
  shows "list_all undotted (path_segments (arg_bytes s))"
proof (cases "well_known (arg_bytes s)")
  case False
  then have "list_all dotless (path_segments (arg_bytes s))"
    using assms by (simp add: IsAcceptablePath_segments Let_def)
  then show ?thesis by (rule list.pred_mono_strong) (rule dotless_undotted)
next
  case True
  then obtain r where r: "(arg_bytes s) = [0x2F] @ str ''.well-known'' @ [0x2F] @ r" by (rule well_known_split)
  have ss: "path_segments (arg_bytes s) = [] # well_known_codes # drop 2 (path_segments (arg_bytes s))"
    unfolding path_segments_def r tp_decode_well_known using split_on_append_sep [OF well_known_codes_plain(2)]
    by (simp add: fix_slash_def)
  have "list_all dotless (drop 2 (path_segments (arg_bytes s)))"
    using assms True by (simp add: IsAcceptablePath_segments Let_def)
  then have "list_all undotted (drop 2 (path_segments (arg_bytes s)))"
    by (rule list.pred_mono_strong) (rule dotless_undotted)
  moreover have "undotted well_known_codes" "undotted []"
    by (simp_all add: undotted_def well_known_codes_def str_def)
  ultimately show ?thesis by (subst ss) simp
qed

lemma well_known_underlong:
  assumes "well_known p"
  shows "well_known (underlong_loop p)"
proof -
  from assms obtain r where r: "p = [0x2F] @ str ''.well-known'' @ [0x2F] @ r" by (rule well_known_split)
  have "underlong_loop p = concat (map tp_bytes (map ucast (str ''/.well-known/''))) @ concat (map tp_bytes (tp_decode r))"
    unfolding underlong_loop_eq r tp_decode_well_known well_known_codes_def by (simp add: str_def)
  also have "concat (map tp_bytes (map ucast (str ''/.well-known/''))) = str ''/.well-known/''"
    by (rule concat_tp_bytes_ascii) (simp add: str_def)
  finally show ?thesis by (simp add: well_known_def str_def)
qed

text \<open>(C24) The stricter test implies the other one, and spelling the path in another way does not get
  around it: a path that \<open>IsAcceptablePath\<close> lets pass has no segment of dots, and what \<open>Underlong\<close> makes of
  it passes as well.\<close>

theorem IsAcceptablePath_safe:
  assumes "IsAcceptablePath s"
  shows "IsReasonablePath s \<and>
         (\<forall>seg \<in> set (path_segments (arg_bytes s)). seg \<noteq> [0x2E] \<and> seg \<noteq> [0x2E, 0x2E]) \<and>
         IsAcceptablePath (Buf (underlong_loop (arg_bytes s)))"
proof -
  let ?p = "arg_bytes s" and ?q = "underlong_loop (arg_bytes s)"
  have seg: "path_segments ?q = path_segments ?p"
    by (simp add: path_segments_def underlong_loop_eq thompson_pike.dec_enc)
  note und = IsAcceptablePath_undotted [OF assms]
  note wk = well_known_underlong [of ?p]
  have "IsAcceptablePath (Buf ?q)"
    using assms wk
    by (auto simp: IsAcceptablePath_segments Let_def seg list_all_iff dest: in_set_dropD split: if_splits)
  moreover have "\<forall>seg \<in> set (path_segments ?p). seg \<noteq> [0x2E] \<and> seg \<noteq> [0x2E, 0x2E]"
    using und by (auto simp: list_all_iff undotted_def)
  ultimately show ?thesis using und by (simp add: IsReasonablePath_def reasonable_loop_codes
      reasonable_codes_segments(1) path_segments_def)
qed

theorem IsAcceptablePath_safe_witness:
  "IsReasonablePath (Buf (str ''/a/b'')) \<and> IsAcceptablePath (Buf (str ''/a/b'')) \<and>
   IsAcceptablePath (Buf (underlong_loop (str ''/a/b'')))"
proof -
  have "IsAcceptablePath (Buf (str ''/a/b''))"
    by (simp add: IsAcceptablePath_def str_def fix_slash_def tp_next_def)
  from this IsAcceptablePath_safe [OF this] show ?thesis by simp
qed

text \<open>A segment that only starts with two dots is not a parent directory, and is refused all the same.\<close>

lemma IsReasonablePath_two_dots: "\<not> IsReasonablePath (Buf (str ''/..x''))"
  by (simp add: IsReasonablePath_def str_def fix_slash_def tp_next_def)

subsection \<open>Hosts and ports\<close>

definition host_char :: "byte \<Rightarrow> bool" where
  "host_char c \<longleftrightarrow> kHostChars c \<noteq> 0 \<or> c = 0x2E"

lemma kHostChars_facts: "kHostChars 0x2E = 0" "isdigit c \<Longrightarrow> kHostChars c \<noteq> 0" "\<not> isdigit 0x2E"
  by (auto simp: kHostChars_eq isalnum_def isdigit_def isupper_def islower_def)

lemma host_name_loop_labels:
  "host_name_loop prev cs \<longleftrightarrow>
     list_all host_char cs \<and>
     [] \<notin> set (butlast (if prev = None \<or> prev = Some 0x2E then split_on 0x2E cs else tl (split_on 0x2E cs)))"
proof (induction prev cs rule: host_name_loop.induct)
  case (2 prev c cs)
  then show ?case by (cases "c = 0x2E") (auto simp: host_char_def kHostChars_facts)
qed simp

definition numeric :: "bytes \<Rightarrow> bool" where
  "numeric cs \<longleftrightarrow> list_all (\<lambda>c. isdigit c \<or> c = 0x2E) cs"

lemma host_loop_name: "\<not> numeric cs \<Longrightarrow> host_loop prev j cs = host_name_loop prev cs"
  by (induction prev j cs rule: host_loop.induct) (auto simp: numeric_def kHostChars_facts)

lemma host_loop_numeric:
  "numeric cs \<Longrightarrow>
   host_loop prev j cs \<longleftrightarrow>
     host_name_loop prev cs \<and> j + count_list cs 0x2E = 3 \<and> (if cs = [] then prev else Some (last cs)) \<noteq> Some 0x2E"
  by (induction prev j cs rule: host_loop.induct) (auto simp: numeric_def kHostChars_facts)

lemma length_split_on: "length (split_on d xs) = count_list xs d + 1"
  by (induction xs) auto

lemma last_split_on: "xs \<noteq> [] \<Longrightarrow> last (split_on d xs) = [] \<longleftrightarrow> last xs = d"
proof (induction xs)
  case (Cons x xs)
  have "last (split_on d (x # xs)) = (if tl (split_on d xs) = [] \<and> x \<noteq> d then x # hd (split_on d xs) else last (split_on d xs))"
    by (metis last_ConsL last_ConsR last_tl list.exhaust_sel split_on.simps(2) split_on_neq_Nil)
  moreover have "tl (split_on d xs) = [] \<Longrightarrow> d \<notin> set xs"
    using length_split_on [of d xs] by (cases "split_on d xs") (auto simp: count_list_0_iff)
  ultimately show ?case using Cons last_in_set [of xs] by (cases "xs = []") auto
qed simp


text \<open>The four numbers of an address are not compared with 255.\<close>

lemma IsAcceptableHost_999: "IsAcceptableHost (Buf (str ''999.1.1.1''))"
  by (simp add: IsAcceptableHost_def DNS_NAME_MAX_def str_def isdigit_def)

lemma port_loop_value: "port_loop p cs \<longleftrightarrow> list_all isdigit cs \<and> (p \<le> 65535 \<longrightarrow> dec_from p cs \<le> 65535)"
  if "p \<le> 65535"
  using that
proof (induction p cs rule: port_loop.induct)
  case (2 p c cs)
  then show ?case
    using dec_from_bound [of "p * 10 + digit_val c" cs 65535]
    by (auto simp: Let_def isdigit_def digit_val_def)
qed simp

text \<open>(C27) \<open>IsAcceptablePort\<close> accepts the strings of digits whose value is at most 65535.\<close>

theorem IsAcceptablePort_value:
  "IsAcceptablePort s \<longleftrightarrow> list_all isdigit (arg_bytes s) \<and> dec_val (arg_bytes s) \<le> 65535"
  by (simp add: IsAcceptablePort_def port_loop_value)

lemma mime_loop_iff:
  "mime_loop t s \<longleftrightarrow>
     length s \<le> length t \<and> map kToLower (take (length s) t) = map kToLower s \<and>
     (length t = length s \<or> kHttpToken (t ! length s) = 0)"
  by (induction t s rule: mime_loop.induct) auto

lemma cookie_loop_iff: "cookie_loop cs \<longleftrightarrow> list_all IsCookieOctet cs"
  by (induction cs) auto

lemma token_loop_iff: "token_loop cs \<longleftrightarrow> list_all (\<lambda>c. kHttpToken c \<noteq> 0) cs"
  by (induction cs) auto

end
