(* ===== verification/Http_Content.thy ===== *)
theory Http_Content
  imports Http_Message
begin

text \<open>
  Content types by file extension: \<open>FindContentType\<close> and \<open>IsNoCompressExt\<close>.  Both read the extension from
  the end of the name into a 64-bit word and look the word up in a sorted table by binary search.
\<close>

definition kContentTypeExtension :: "(string \<times> string) list" where
  "kContentTypeExtension = [
    (''7z'', ''application/x-7z-compressed''), (''aac'', ''audio/aac''), (''apng'', ''image/apng''),
    (''atom'', ''application/atom+xml''), (''avi'', ''video/x-msvideo''),
    (''avif'', ''image/avif''), (''azw'', ''application/vnd.amazon.ebook''),
    (''bmp'', ''image/bmp''), (''bz2'', ''application/x-bzip2''), (''c'', ''text/plain''),
    (''cc'', ''text/plain''), (''css'', ''text/css''), (''csv'', ''text/csv''),
    (''diff'', ''text/plain''), (''diff'', ''text/plain''), (''doc'', ''application/msword''),
    (''epub'', ''application/epub+zip''), (''gif'', ''image/gif''), (''gz'', ''application/gzip''),
    (''h'', ''text/plain''), (''htm'', ''text/html''), (''html'', ''text/html''),
    (''i'', ''text/plain''), (''ico'', ''image/vnd.microsoft.icon''),
    (''jar'', ''application/java-archive''), (''jpeg'', ''image/jpeg''), (''jpg'', ''image/jpeg''),
    (''js'', ''text/javascript''), (''json'', ''application/json''), (''m4a'', ''audio/mpeg''),
    (''markdown'', ''text/plain''), (''md'', ''text/plain''), (''mid'', ''audio/midi''),
    (''midi'', ''audio/midi''), (''mjs'', ''text/javascript''), (''mp2'', ''audio/mpeg''),
    (''mp3'', ''audio/mpeg''), (''mp4'', ''video/mp4''), (''mpeg'', ''video/mpeg''),
    (''mpg'', ''video/mpeg''), (''oga'', ''audio/ogg''), (''ogg'', ''application/ogg''),
    (''ogv'', ''video/ogg''), (''ogx'', ''application/ogg''), (''otf'', ''font/otf''),
    (''patch'', ''text/plain''), (''pdf'', ''application/pdf''), (''png'', ''image/png''),
    (''rar'', ''application/vnd.rar''), (''rtf'', ''application/rtf''), (''s'', ''text/plain''),
    (''sh'', ''application/x-sh''), (''sqlite'', ''application/vnd.sqlite3''),
    (''sqlite3'', ''application/vnd.sqlite3''), (''svg'', ''image/svg+xml''),
    (''swf'', ''application/x-shockwave-flash''), (''t38'', ''image/t38''),
    (''tar'', ''application/x-tar''), (''tiff'', ''image/tiff''), (''ttf'', ''font/ttf''),
    (''txt'', ''text/plain''), (''ul'', ''audio/basic''), (''ulaw'', ''audio/basic''),
    (''wasm'', ''application/wasm''), (''wav'', ''audio/x-wav''), (''weba'', ''audio/webm''),
    (''webm'', ''video/webm''), (''webp'', ''image/webp''), (''woff'', ''font/woff''),
    (''woff2'', ''font/woff2''), (''wsdl'', ''application/wsdl+xml''),
    (''xhtml'', ''application/xhtml+xml''), (''xls'', ''application/vnd.ms-excel''),
    (''xml'', ''application/xml''), (''xsl'', ''application/xslt+xml''),
    (''xslt'', ''application/xslt+xml''), (''xz'', ''application/x-xz''),
    (''z'', ''application/zlib''), (''zip'', ''application/zip''), (''zst'', ''application/zstd'')]"

text \<open>A \<open>char ext[8]\<close> is filled up with zeros; \<open>bswap_64\<close> reverses the bytes of a word.\<close>

definition pad8 :: "bytes \<Rightarrow> bytes" where
  "pad8 b = take 8 (b @ replicate 8 0)"

definition ext_word :: "string \<Rightarrow> 64 word" where
  "ext_word e = READ64BE (pad8 (str e))"

definition le8 :: "64 word \<Rightarrow> bytes" where
  "le8 w = map (\<lambda>i. ucast (drop_bit (8 * i) w)) [0..<8]"

definition bswap_64 :: "64 word \<Rightarrow> 64 word" where
  "bswap_64 w = READ64BE (le8 w)"

definition CompareInts :: "64 word \<Rightarrow> 64 word \<Rightarrow> int" where
  "CompareInts x y = (if x > y then 1 else if x < y then - 1 else 0)"

function content_bisect :: "64 word \<Rightarrow> int \<Rightarrow> int \<Rightarrow> string option" where
  "content_bisect ext l r =
     (if l \<le> r then
        (let m = (l AND r) + drop_bit 1 (l XOR r);
             c = CompareInts (ext_word (fst (kContentTypeExtension ! nat m))) ext in
         if c < 0 then content_bisect ext (m + 1) r
         else if c > 0 then content_bisect ext l (m - 1)
         else Some (snd (kContentTypeExtension ! nat m)))
      else None)"
  by pat_completeness auto
termination
  by (relation "measure (\<lambda>(ext, l, r). nat (r - l + 1))") (unfold average_floor, auto)

declare content_bisect.simps [simp del]

definition BisectContentType :: "64 word \<Rightarrow> string option" where
  "BisectContentType ext = content_bisect ext 0 (int (length kContentTypeExtension) - 1)"

text \<open>The loop \<open>for (w = 0; n--;)\<close>, over the name from its end.\<close>

primrec content_loop :: "64 word \<Rightarrow> bytes \<Rightarrow> string option" where
  "content_loop w [] = None"
| "content_loop w (c # cs) =
     (if c = 0x2E then BisectContentType (bswap_64 w)
      else content_loop (push_bit 8 w OR ucast (kToLower c)) cs)"

definition FindContentType :: "cstr \<Rightarrow> string option" where
  "FindContentType p = content_loop 0 (rev (arg_bytes p))"

subsection \<open>Extensions that are not compressed\<close>

definition kNoCompressExts :: "string list" where
  "kNoCompressExts = [''bz2'', ''gif'', ''gz'', ''jpg'', ''lz4'', ''mp4'', ''mpeg'', ''mpg'', ''png'', ''webp'', ''xz'', ''zip'']"

function nocompress_bisect :: "64 word \<Rightarrow> int \<Rightarrow> int \<Rightarrow> bool" where
  "nocompress_bisect ext l r =
     (if l \<le> r then
        (let m = (l AND r) + drop_bit 1 (l XOR r) in
         if ext_word (kNoCompressExts ! nat m) < ext then nocompress_bisect ext (m + 1) r
         else if ext_word (kNoCompressExts ! nat m) > ext then nocompress_bisect ext l (m - 1)
         else True)
      else False)"
  by pat_completeness auto
termination
  by (relation "measure (\<lambda>(ext, l, r). nat (r - l + 1))") (unfold average_floor, auto)

declare nocompress_bisect.simps [simp del]

definition BisectNoCompressExts :: "64 word \<Rightarrow> bool" where
  "BisectNoCompressExts ext = nocompress_bisect ext 0 (int (length kNoCompressExts) - 1)"

fun nocompress_loop :: "nat \<Rightarrow> 64 word \<Rightarrow> bytes \<Rightarrow> bool" where
  "nocompress_loop i w [] = BisectNoCompressExts (bswap_64 w)"
| "nocompress_loop i w (c # cs) =
     (if c = 0x2E then BisectNoCompressExts (bswap_64 w)
      else if i + 1 > 8 then False
      else nocompress_loop (i + 1) (push_bit 8 w OR ucast (kToLower c)) cs)"

definition IsNoCompressExt :: "cstr \<Rightarrow> bool" where
  "IsNoCompressExt s =
     (let p = arg_bytes s in if length p \<noteq> 0 then nocompress_loop 0 0 (rev p) else False)"

subsection \<open>Words of eight bytes\<close>

lemma length_pad8 [simp]: "length (pad8 b) = 8"
  by (simp add: pad8_def)

lemma le8_0: "le8 0 = pad8 []"
  by (simp add: le8_def pad8_def map_replicate_const)

lemma le8_push: "le8 (push_bit 8 w OR ucast c) = take 8 (c # le8 w)"
proof (rule nth_equalityI)
  show "length (le8 (push_bit 8 w OR ucast c)) = length (take 8 (c # le8 w))" by (simp add: le8_def)
  fix i assume "i < length (le8 (push_bit 8 w OR ucast c))"
  then have i: "i < 8" by (simp add: le8_def)
  have "(ucast (drop_bit (8 * i) (push_bit 8 w OR ucast c)) :: byte) = (if i = 0 then c else ucast (drop_bit (8 * (i - 1)) w))"
    using i by (intro bit_word_eqI) (auto simp: bit_simps algebra_simps dest: bit_imp_le_length)
  then show "le8 (push_bit 8 w OR ucast c) ! i = take 8 (c # le8 w) ! i"
    using i by (cases i) (simp_all add: le8_def)
qed

definition be_val :: "bytes \<Rightarrow> nat" where
  "be_val b = foldl (\<lambda>v c. v * 256 + unat c) 0 b"

lemma be_val_snoc [simp]: "be_val [] = 0" "be_val (b @ [c]) = be_val b * 256 + unat c"
  by (simp_all add: be_val_def)

lemma be_val_less: "be_val b < 256 ^ length b"
proof (induction b rule: rev_induct)
  case (snoc c b)
  have "be_val b * 256 + unat c < (be_val b + 1) * 256" using unat_byte_less [of c] by simp
  also have "\<dots> \<le> 256 ^ length b * 256" using snoc by (intro mult_le_mono) simp_all
  finally show ?case by simp
qed simp

lemma be_val_inj: "length a = length b \<Longrightarrow> be_val a = be_val b \<Longrightarrow> a = b"
proof (induction a arbitrary: b rule: rev_induct)
  case (snoc c a)
  then obtain d b' where b: "b = b' @ [d]" by (cases b rule: rev_exhaust) auto
  have "be_val a * 256 + unat c = be_val b' * 256 + unat d" using snoc.prems(2) b by simp
  then have "be_val a = be_val b'" "unat c = unat d"
    using unat_byte_less [of c] unat_byte_less [of d] by (auto dest: arg_cong [of _ _ "\<lambda>n. n div 256"] arg_cong [of _ _ "\<lambda>n. n mod 256"])
  then show ?case using snoc b by (simp add: word_unat_eq_iff)
qed simp

lemma of_nat_unat_byte: "of_nat (unat c) = (ucast (c :: byte) :: 64 word)"
  by (simp add: word_unat_eq_iff unat_of_nat unsigned_ucast_eq)

lemma unat_READ64BE:
  assumes "length b \<le> 8" shows "unat (READ64BE b) = be_val b"
  using assms
proof (induction b rule: rev_induct)
  case (snoc c b)
  have "be_val b < 256 ^ 7"
    using be_val_less [of b] snoc.prems power_increasing [of "length b" 7 "256 :: nat"] by simp
  moreover have "unat (READ64BE b) = be_val b" using snoc by simp
  ultimately have l: "unat (READ64BE b) * 256 + unat c < 2 ^ 64" using unat_byte_less [of c] by simp
  have "READ64BE (b @ [c]) = push_bit 8 (READ64BE b) OR ucast c"
    using snoc.prems by (simp add: READ64BE_def)
  also have "\<dots> = push_bit 8 (READ64BE b) + ucast c"
    by (rule disjunctive_add_eq_or [symmetric]) (rule bit_word_eqI, auto simp: bit_simps dest: bit_imp_le_length)
  also have "\<dots> = of_nat (unat (READ64BE b) * 256 + unat c)"
    by (simp add: push_bit_eq_mult of_nat_unat_byte)
  finally have e: "READ64BE (b @ [c]) = of_nat (unat (READ64BE b) * 256 + unat c)" .
  have "unat (READ64BE (b @ [c])) = unat (READ64BE b) * 256 + unat c"
    unfolding e unat_of_nat using l by (simp add: take_bit_nat_eq_self)
  then show ?case using \<open>unat (READ64BE b) = be_val b\<close> by simp
qed (simp add: READ64BE_def)

lemma READ64BE_inj: "length a = 8 \<Longrightarrow> length b = 8 \<Longrightarrow> READ64BE a = READ64BE b \<longleftrightarrow> a = b"
  using be_val_inj [of a b] unat_READ64BE [of a] unat_READ64BE [of b] by auto

subsection \<open>The searches\<close>

lemma replicate_small:
  "replicate 2 x = [x, x]" "replicate 3 x = [x, x, x]" "replicate 4 x = [x, x, x, x]" "replicate 5 x = [x, x, x, x, x]"
  "replicate 6 x = [x, x, x, x, x, x]" "replicate 7 x = [x, x, x, x, x, x, x]"
  by (simp_all add: numeral_eq_Suc)

lemma pad8_Cons: "c # take 7 (pad8 x) = pad8 (c # x)"
  by (simp only: pad8_def append_Cons take_Cons' take_take) simp

text \<open>The table as the search sees it.\<close>

definition content_words :: "(64 word \<times> string) list" where
  "content_words = map (\<lambda>(e, m). (ext_word e, m)) kContentTypeExtension"

lemma content_keys:
  "map fst content_words = [
     0x377A000000000000, 0x6161630000000000, 0x61706E6700000000, 0x61746F6D00000000, 0x6176690000000000,
     0x6176696600000000, 0x617A770000000000, 0x626D700000000000, 0x627A320000000000, 0x6300000000000000,
     0x6363000000000000, 0x6373730000000000, 0x6373760000000000, 0x6469666600000000, 0x6469666600000000,
     0x646F630000000000, 0x6570756200000000, 0x6769660000000000, 0x677A000000000000, 0x6800000000000000,
     0x68746D0000000000, 0x68746D6C00000000, 0x6900000000000000, 0x69636F0000000000, 0x6A61720000000000,
     0x6A70656700000000, 0x6A70670000000000, 0x6A73000000000000, 0x6A736F6E00000000, 0x6D34610000000000,
     0x6D61726B646F776E, 0x6D64000000000000, 0x6D69640000000000, 0x6D69646900000000, 0x6D6A730000000000,
     0x6D70320000000000, 0x6D70330000000000, 0x6D70340000000000, 0x6D70656700000000, 0x6D70670000000000,
     0x6F67610000000000, 0x6F67670000000000, 0x6F67760000000000, 0x6F67780000000000, 0x6F74660000000000,
     0x7061746368000000, 0x7064660000000000, 0x706E670000000000, 0x7261720000000000, 0x7274660000000000,
     0x7300000000000000, 0x7368000000000000, 0x73716C6974650000, 0x73716C6974653300, 0x7376670000000000,
     0x7377660000000000, 0x7433380000000000, 0x7461720000000000, 0x7469666600000000, 0x7474660000000000,
     0x7478740000000000, 0x756C000000000000, 0x756C617700000000, 0x7761736D00000000, 0x7761760000000000,
     0x7765626100000000, 0x7765626D00000000, 0x7765627000000000, 0x776F666600000000, 0x776F666632000000,
     0x7773646C00000000, 0x7868746D6C000000, 0x786C730000000000, 0x786D6C0000000000, 0x78736C0000000000,
     0x78736C7400000000, 0x787A000000000000, 0x7A00000000000000, 0x7A69700000000000, 0x7A73740000000000
   ]"
proof -
  have "map fst content_words = map ext_word (map fst kContentTypeExtension)"
    by (simp add: content_words_def case_prod_beta)
  also have "map fst kContentTypeExtension = [
     ''7z'', ''aac'', ''apng'', ''atom'', ''avi'', ''avif'', ''azw'', ''bmp'', ''bz2'', ''c'',
     ''cc'', ''css'', ''csv'', ''diff'', ''diff'', ''doc'', ''epub'', ''gif'', ''gz'', ''h'', ''htm'',
     ''html'', ''i'', ''ico'', ''jar'', ''jpeg'', ''jpg'', ''js'', ''json'', ''m4a'', ''markdown'',
     ''md'', ''mid'', ''midi'', ''mjs'', ''mp2'', ''mp3'', ''mp4'', ''mpeg'', ''mpg'', ''oga'', ''ogg'',
     ''ogv'', ''ogx'', ''otf'', ''patch'', ''pdf'', ''png'', ''rar'', ''rtf'', ''s'', ''sh'', ''sqlite'',
     ''sqlite3'', ''svg'', ''swf'', ''t38'', ''tar'', ''tiff'', ''ttf'', ''txt'', ''ul'', ''ulaw'',
     ''wasm'', ''wav'', ''weba'', ''webm'', ''webp'', ''woff'', ''woff2'', ''wsdl'', ''xhtml'', ''xls'',
     ''xml'', ''xsl'', ''xslt'', ''xz'', ''z'', ''zip'',
     ''zst'']"
    by (simp add: kContentTypeExtension_def)
  finally show ?thesis by (simp add: ext_word_def pad8_def str_def READ64BE_def replicate_small)
qed

lemma content_words_sorted:
  "sorted (map fst content_words)" "sorted_wrt (<) (map fst (take 14 content_words @ drop 15 content_words))"
proof -
  have "successively (\<le>) (map fst content_words)" unfolding content_keys by simp
  then show "sorted (map fst content_words)" by (simp add: successively_conv_sorted_wrt)
  have "successively (<) (take 14 (map fst content_words) @ drop 15 (map fst content_words))"
    unfolding content_keys by simp
  then show "sorted_wrt (<) (map fst (take 14 content_words @ drop 15 content_words))"
    by (simp add: successively_conv_sorted_wrt take_map drop_map)
qed

text \<open>The one entry that occurs twice.\<close>

lemma content_words_twice: "content_words ! 13 = content_words ! 14" "length content_words = 80"
  by (simp_all add: content_words_def kContentTypeExtension_def)

lemma set_remove_nth:
  "i < length xs \<Longrightarrow> xs ! i \<in> set (take i xs) \<Longrightarrow> set xs \<subseteq> set (take i xs @ drop (Suc i) xs)"
  by (subst id_take_nth_drop [of i xs]) auto

lemma content_words_single:
  assumes "(k, v) \<in> set content_words" "(k, w) \<in> set content_words"
  shows "v = w"
proof -
  let ?t = "take 14 content_words @ drop (Suc 14) content_words"
  have "content_words ! 14 \<in> set (take 14 content_words)"
    unfolding content_words_twice(1) [symmetric] in_set_conv_nth
    by (rule exI [of _ 13]) (simp add: content_words_twice(2))
  moreover have "14 < length content_words" by (simp add: content_words_twice(2))
  ultimately have sub: "set content_words \<subseteq> set ?t" by (rule set_remove_nth [rotated])
  have "Suc 14 = 15" by simp
  then have "distinct (map fst ?t)"
    using content_words_sorted(2) by (simp only: strict_sorted_iff)
  then show ?thesis
    by (rule eq_key_imp_eq_value) (rule subsetD [OF sub], fact)+
qed

lemma nocompress_sorted: "sorted (map ext_word kNoCompressExts)"
proof -
  have "successively (\<le>) (map ext_word kNoCompressExts)"
    by (simp add: kNoCompressExts_def ext_word_def pad8_def str_def READ64BE_def replicate_small)
  then show ?thesis by (simp add: successively_conv_sorted_wrt)
qed

lemma content_words_nth:
  "i < length kContentTypeExtension \<Longrightarrow>
   content_words ! i = (ext_word (fst (kContentTypeExtension ! i)), snd (kContentTypeExtension ! i))"
  by (simp add: content_words_def case_prod_beta)

lemma CompareInts_if:
  "(if CompareInts x y < 0 then a else if CompareInts x y > 0 then b else c) = (if x < y then a else if x > y then b else c)"
  by (auto simp: CompareInts_def dest: less_asym)

lemma content_bisect_step:
  assumes "0 \<le> l" "r < int (length content_words)"
  shows "content_bisect k l r = (if l \<le> r then
      (let m = (l + r) div 2 in
       if fst (content_words ! nat m) < k then content_bisect k (m + 1) r
       else if fst (content_words ! nat m) > k then content_bisect k l (m - 1)
       else Some (snd (content_words ! nat m)))
     else None)"
proof (cases "l \<le> r")
  case True
  define m where "m = (l + r) div 2"
  have "nat m < length kContentTypeExtension" using assms True by (simp add: content_words_def m_def)
  then have w: "content_words ! nat m = (ext_word (fst (kContentTypeExtension ! nat m)), snd (kContentTypeExtension ! nat m))"
    by (rule content_words_nth)
  have "content_bisect k l r =
      (let c = CompareInts (ext_word (fst (kContentTypeExtension ! nat m))) k in
       if c < 0 then content_bisect k (m + 1) r
       else if c > 0 then content_bisect k l (m - 1)
       else Some (snd (kContentTypeExtension ! nat m)))"
    using True unfolding content_bisect.simps [of k l r] average_floor m_def [symmetric] Let_def by (simp only: if_True)
  also have "\<dots> = (if fst (content_words ! nat m) < k then content_bisect k (m + 1) r
       else if fst (content_words ! nat m) > k then content_bisect k l (m - 1)
       else Some (snd (content_words ! nat m)))"
    unfolding w Let_def CompareInts_if fst_conv snd_conv ..
  finally show ?thesis using True unfolding Let_def m_def by (simp only: if_True)
next
  case False
  then show ?thesis by (simp only: content_bisect.simps [of k l r] if_False)
qed

interpretation content_search: table_search content_words content_bisect Some None
  by unfold_locales (rule content_bisect_step content_words_sorted(1) content_words_single; assumption)+

interpretation nocompress_search: table_search
  "map (\<lambda>e. (ext_word e, True)) kNoCompressExts" nocompress_bisect "\<lambda>b. b" False
proof unfold_locales
  fix k :: "64 word" and l r :: int
  assume "0 \<le> l" "r < int (length (map (\<lambda>e. (ext_word e, True)) kNoCompressExts))"
  then have "nat ((l + r) div 2) < length kNoCompressExts" if "l \<le> r" using that by simp
  then show "nocompress_bisect k l r = (if l \<le> r then
      (let m = (l + r) div 2 in
       if fst (map (\<lambda>e. (ext_word e, True)) kNoCompressExts ! nat m) < k then nocompress_bisect k (m + 1) r
       else if fst (map (\<lambda>e. (ext_word e, True)) kNoCompressExts ! nat m) > k then nocompress_bisect k l (m - 1)
       else snd (map (\<lambda>e. (ext_word e, True)) kNoCompressExts ! nat m))
     else False)"
    by (subst nocompress_bisect.simps, unfold average_floor) (auto simp: Let_def)
next
  show "sorted (map fst (map (\<lambda>e. (ext_word e, True)) kNoCompressExts))"
    using nocompress_sorted by (simp add: comp_def)
qed auto

lemma map_of_map_key:
  "(\<And>e. e \<in> fst ` set t \<Longrightarrow> f e = k \<longleftrightarrow> g e = k') \<Longrightarrow>
   map_of (map (\<lambda>(e, v). (f e, v)) t) k = map_of (map (\<lambda>(e, v). (g e, v)) t) k'"
proof (induction t)
  case (Cons a t)
  show ?case using Cons.prems [of "fst a"] Cons.IH [OF Cons.prems] by (cases a) auto
qed simp

text \<open>The part of a name after its last dot.\<close>

definition extension :: "bytes \<Rightarrow> bytes" where
  "extension p = rev (takeWhile (\<lambda>c. c \<noteq> 0x2E) (rev p))"

lemma content_loop_ext:
  "le8 w = pad8 x \<Longrightarrow>
   content_loop w cs =
     (if 0x2E \<in> set cs
      then BisectContentType (READ64BE (pad8 (map kToLower (rev (takeWhile (\<lambda>c. c \<noteq> 0x2E) cs)) @ x))) else None)"
proof (induction cs arbitrary: w x)
  case (Cons c cs)
  have "le8 (push_bit 8 w OR ucast (kToLower c)) = pad8 (kToLower c # x)"
    by (simp add: le8_push Cons.prems pad8_Cons [symmetric])
  then show ?case using Cons.IH Cons.prems by (auto simp: bswap_64_def)
qed simp

text \<open>(C28) \<open>FindContentType\<close> finds the type that a linear search of the table finds for the first eight
  bytes of the extension, in lower case and filled up with zeros; a name without a dot has none.\<close>

theorem FindContentType_map_of:
  "FindContentType s =
     (if 0x2E \<in> set (arg_bytes s)
      then map_of (map (\<lambda>(e, m). (pad8 (str e), m)) kContentTypeExtension) (pad8 (map kToLower (extension (arg_bytes s))))
      else None)"
proof -
  have "BisectContentType (READ64BE (pad8 x)) =
      map_of (map (\<lambda>(e, m). (pad8 (str e), m)) kContentTypeExtension) (pad8 x)" for x
    unfolding BisectContentType_def
    using content_search.search_map_of [of "READ64BE (pad8 x)", unfolded content_words_def]
      map_of_map_key [of kContentTypeExtension ext_word "READ64BE (pad8 x)" "\<lambda>e. pad8 (str e)" "pad8 x"]
    by (simp add: ext_word_def READ64BE_inj split: option.splits)
  then show ?thesis
    using content_loop_ext [OF le8_0, of "rev (arg_bytes s)"] by (simp add: FindContentType_def extension_def)
qed

lemma nocompress_loop_ext:
  "le8 w = pad8 x \<Longrightarrow> length x = i \<Longrightarrow> i \<le> 8 \<Longrightarrow>
   nocompress_loop i w cs \<longleftrightarrow>
     i + length (takeWhile (\<lambda>c. c \<noteq> 0x2E) cs) \<le> 8 \<and>
     BisectNoCompressExts (READ64BE (pad8 (map kToLower (rev (takeWhile (\<lambda>c. c \<noteq> 0x2E) cs)) @ x)))"
proof (induction i w cs arbitrary: x rule: nocompress_loop.induct)
  case (2 i w c cs)
  have "le8 (push_bit 8 w OR ucast (kToLower c)) = pad8 (kToLower c # x)"
    using 2 by (simp add: le8_push pad8_Cons [symmetric])
  then show ?case using 2 by (auto simp: bswap_64_def)
qed (auto simp: bswap_64_def)

lemma IsNoCompressExt_mem:
  "IsNoCompressExt s \<longleftrightarrow>
     (let e = extension (arg_bytes s) in
      arg_bytes s \<noteq> [] \<and> length e \<le> 8 \<and> pad8 (map kToLower e) \<in> (pad8 \<circ> str) ` set kNoCompressExts)"
proof -
  have "BisectNoCompressExts (READ64BE (pad8 x)) \<longleftrightarrow> pad8 x \<in> (pad8 \<circ> str) ` set kNoCompressExts" for x
  proof -
    have "map_of (map (\<lambda>e. (ext_word e, True)) es) (READ64BE (pad8 x)) =
        (if pad8 x \<in> (pad8 \<circ> str) ` set es then Some True else None)" for es
      by (induction es) (auto simp: ext_word_def READ64BE_inj)
    then show ?thesis
      unfolding BisectNoCompressExts_def using nocompress_search.search_map_of [of "READ64BE (pad8 x)"] by simp
  qed
  then show ?thesis
    using nocompress_loop_ext [OF le8_0, of 0 "rev (arg_bytes s)"]
    by (auto simp: IsNoCompressExt_def extension_def Let_def)
qed

end
