(* ===== verification/Http_Addr.thy ===== *)
theory Http_Addr
  imports Decimal Thompson_Pike
begin

text \<open>
  IPv4 addresses: the parsers \<open>ParseIp\<close>, \<open>ParseCidr\<close> and \<open>ParseForwarded\<close>, and the classification by
  \<open>CategorizeIp\<close> and the predicates it calls (\<open>net/http\<close>, \<open>libc/intrin\<close>).  An address is a 32-bit word.
\<close>

subsection \<open>Parsers\<close>

text \<open>The 32-bit number \<open>b\<close> is a natural number; the products and sums that overflow make the parser fail.\<close>

fun ip_loop :: "nat \<Rightarrow> 32 word \<Rightarrow> bool \<Rightarrow> bytes \<Rightarrow> int" where
  "ip_loop b x dotted [] = uint (push_bit 8 x OR of_nat b)"
| "ip_loop b x dotted (c # cs) =
     (if isdigit c then
        if b * 10 \<ge> 2 ^ 32 \<or> b * 10 + digit_val c \<ge> 2 ^ 32 \<or> (b * 10 + digit_val c > 255 \<and> dotted) then - 1
        else ip_loop (b * 10 + digit_val c) x dotted cs
      else if c = 0x2E then
        if b > 255 then - 1 else ip_loop 0 (push_bit 8 x OR of_nat b) True cs
      else - 1)"

definition ParseIp :: "cstr \<Rightarrow> int" where
  "ParseIp s = (if length (arg_bytes s) = 0 then - 1 else ip_loop 0 0 False (arg_bytes s))"

record Cidr =
  cidr_addr :: int
  cidr_cidr :: "int option"

text \<open>The index of the first \<open>c\<close>, as \<open>strchr(s, c) - s\<close>.\<close>

fun strchr :: "bytes \<Rightarrow> byte \<Rightarrow> nat option" where
  "strchr [] c = None"
| "strchr (d # ds) c = (if d = c then Some 0 else map_option Suc (strchr ds c))"

fun cidr_loop :: "int \<Rightarrow> bytes \<Rightarrow> int" where
  "cidr_loop v [] = v"
| "cidr_loop v (c # cs) =
     (if isdigit c then
        if v * 10 + int (digit_val c) > 32 then - 1 else cidr_loop (v * 10 + int (digit_val c)) cs
      else - 1)"

text \<open>
  The first argument is the string up to its \<open>NUL\<close>, the second the length that was passed, \<open>None\<close> for
  \<open>-1\<close>: \<open>strchr\<close> does not know the length.  When the address is wrong the number of bits is not set.
\<close>

definition ParseCidr :: "bytes \<Rightarrow> nat option \<Rightarrow> Cidr" where
  "ParseCidr s n =
     (let n = (case n of None \<Rightarrow> length s | Some k \<Rightarrow> k) in
      case strchr s 0x2F of
        Some i \<Rightarrow>
          (let addr = ParseIp (Buf (take i s)) in
           if addr \<noteq> - 1 then
             (let v = cidr_loop 0 (drop (i + 1) (take n s)) in
              \<lparr>cidr_addr = if v \<le> 0 then - 1 else addr, cidr_cidr = Some v\<rparr>)
           else \<lparr>cidr_addr = addr, cidr_cidr = None\<rparr>)
      | None \<Rightarrow> \<lparr>cidr_addr = ParseIp (Buf (take n s)), cidr_cidr = Some 32\<rparr>)"

text \<open>The index of the last \<open>c\<close>, as \<open>memrchr(s, c, n) - s\<close>.\<close>

fun memrchr :: "bytes \<Rightarrow> byte \<Rightarrow> nat option" where
  "memrchr [] c = None"
| "memrchr (d # ds) c =
     (case memrchr ds c of Some i \<Rightarrow> Some (Suc i) | None \<Rightarrow> if d = c then Some 0 else None)"

text \<open>
  The loop over the address returns \<open>t\<close>, \<open>x\<close>, the last byte and the rest of the input; its body is run at
  least once.
\<close>

fun fwd_loop :: "nat \<Rightarrow> 32 word \<Rightarrow> bytes \<Rightarrow> (nat \<times> 32 word \<times> byte \<times> bytes) option" where
  "fwd_loop t x [] = None"
| "fwd_loop t x (c # cs) =
     (if isdigit c then
        if t * 10 + digit_val c > 255 then None
        else if cs = [] then Some (t * 10 + digit_val c, x, c, []) else fwd_loop (t * 10 + digit_val c) x cs
      else if c = 0x2E then
        if cs = [] then Some (0, push_bit 8 x OR of_nat t, c, []) else fwd_loop 0 (push_bit 8 x OR of_nat t) cs
      else if c = 0x3A then Some (t, x, c, cs)
      else None)"

fun fwd_port :: "nat \<Rightarrow> bytes \<Rightarrow> nat option" where
  "fwd_port t [] = Some t"
| "fwd_port t (c # cs) =
     (if isdigit c then if t * 10 + digit_val c > 65535 then None else fwd_port (t * 10 + digit_val c) cs
      else None)"

text \<open>
  \<open>after i\<close> is the byte that is \<open>i\<close> places behind the buffer: with a comma at the end of the buffer the
  code reads the byte behind it, and the next one if that is a space.
\<close>

definition fwd_bytes :: "bytes \<Rightarrow> (nat \<Rightarrow> byte) \<Rightarrow> bytes" where
  "fwd_bytes s after =
     (let rd = (\<lambda>i. if i < length s then s ! i else after (i - length s));
          i = (case memrchr s 0x2C of
                 Some r \<Rightarrow> if rd (r + 1) = 0x20 then r + 2 else r + 1
               | None \<Rightarrow> 0) in
      if i < length s then drop i s else [rd i])"

definition ParseForwarded :: "cstr \<Rightarrow> (nat \<Rightarrow> byte) \<Rightarrow> (32 word \<times> 16 word) option" where
  "ParseForwarded s after =
     (if length (arg_bytes s) \<noteq> 0 then
        (case fwd_loop 0 0 (fwd_bytes (arg_bytes s) after) of
           None \<Rightarrow> None
         | Some (t, x, c, cs) \<Rightarrow>
             (let x = push_bit 8 x OR of_nat t in
              if c = 0x3A then
                (case fwd_port 0 cs of None \<Rightarrow> None | Some t \<Rightarrow> Some (x, of_nat t))
              else Some (x, 0)))
      else None)"

subsection \<open>Classes of addresses\<close>

definition IsAfrinicIp :: "32 word \<Rightarrow> bool" where
  "IsAfrinicIp x =
    (let a = drop_bit 24 (x AND 0xFF000000) in
     a = 41 \<or> a = 102 \<or> a = 105 \<or> a = 154 \<or> a = 196 \<or> a = 197 \<or>
     x AND 0xFFFFE000 = 0xCA7B0000)"

definition IsApnicIp :: "32 word \<Rightarrow> bool" where
  "IsApnicIp x =
    (let a = drop_bit 24 (x AND 0xFF000000) in
     a = 1 \<or> a = 14 \<or> a = 27 \<or> a = 36 \<or> a = 39 \<or> a = 42 \<or> a = 43 \<or> a = 49 \<or>
     a = 58 \<or> a = 59 \<or> a = 60 \<or> a = 61 \<or> a = 101 \<or> a = 103 \<or> a = 106 \<or>
     a = 110 \<or> a = 111 \<or> a = 112 \<or> a = 113 \<or> a = 114 \<or> a = 115 \<or> a = 116 \<or>
     a = 117 \<or> a = 118 \<or> a = 119 \<or> a = 120 \<or> a = 121 \<or> a = 122 \<or> a = 123 \<or>
     a = 124 \<or> a = 125 \<or> a = 126 \<or> a = 133 \<or> a = 150 \<or> a = 153 \<or> a = 163 \<or>
     a = 171 \<or> a = 175 \<or> a = 180 \<or> a = 182 \<or> a = 183 \<or> a = 202 \<or> a = 203 \<or>
     a = 210 \<or> a = 211 \<or> a = 218 \<or> a = 219 \<or> a = 220 \<or> a = 221 \<or> a = 222 \<or>
     a = 223)"

definition IsArinIp :: "32 word \<Rightarrow> bool" where
  "IsArinIp x =
    (let a = drop_bit 24 (x AND 0xFF000000) in
     a = 3 \<or> a = 4 \<or> a = 8 \<or> a = 9 \<or> a = 13 \<or> a = 15 \<or> a = 16 \<or> a = 18 \<or>
     a = 20 \<or> a = 23 \<or> a = 24 \<or> a = 32 \<or> a = 34 \<or> a = 35 \<or> a = 40 \<or> a = 44 \<or>
     a = 45 \<or> a = 47 \<or> a = 50 \<or> a = 52 \<or> a = 54 \<or> a = 63 \<or> a = 64 \<or> a = 65 \<or>
     a = 66 \<or> a = 67 \<or> a = 68 \<or> a = 69 \<or> a = 70 \<or> a = 71 \<or> a = 72 \<or> a = 74 \<or>
     a = 75 \<or> a = 76 \<or> a = 96 \<or> a = 97 \<or> a = 98 \<or> a = 99 \<or> a = 100 \<or>
     a = 104 \<or> a = 107 \<or> a = 108 \<or> a = 128 \<or> a = 129 \<or> a = 130 \<or> a = 131 \<or>
     a = 132 \<or> a = 134 \<or> a = 135 \<or> a = 136 \<or> a = 137 \<or> a = 138 \<or> a = 139 \<or>
     a = 140 \<or> a = 142 \<or> a = 143 \<or> a = 144 \<or> a = 146 \<or> a = 147 \<or> a = 148 \<or>
     a = 149 \<or> a = 152 \<or> a = 155 \<or> a = 156 \<or> a = 157 \<or> a = 158 \<or> a = 159 \<or>
     a = 160 \<or> a = 161 \<or> a = 162 \<or> a = 164 \<or> a = 165 \<or> a = 166 \<or> a = 167 \<or>
     a = 168 \<or> a = 169 \<or> a = 170 \<or> a = 172 \<or> a = 173 \<or> a = 174 \<or> a = 184 \<or>
     a = 192 \<or> a = 198 \<or> a = 199 \<or> a = 204 \<or> a = 205 \<or> a = 206 \<or> a = 207 \<or>
     a = 208 \<or> a = 209 \<or> a = 216)"

definition IsDodIp :: "32 word \<Rightarrow> bool" where
  "IsDodIp x =
    (let a = drop_bit 24 (x AND 0xFF000000) in
     a = 6 \<or> a = 7 \<or> a = 11 \<or> a = 21 \<or> a = 22 \<or> a = 26 \<or> a = 28 \<or> a = 29 \<or>
     a = 30 \<or> a = 33 \<or> a = 55 \<or> a = 214 \<or> a = 215)"

definition IsLacnicIp :: "32 word \<Rightarrow> bool" where
  "IsLacnicIp x =
    (let a = drop_bit 24 (x AND 0xFF000000) in
     a = 177 \<or> a = 179 \<or> a = 181 \<or> a = 186 \<or> a = 187 \<or> a = 189 \<or> a = 190 \<or>
     a = 191 \<or> a = 200 \<or> a = 201)"

definition IsMulticastIp :: "32 word \<Rightarrow> bool" where
  "IsMulticastIp x = (drop_bit 28 x = 0xE)"

definition IsRipeIp :: "32 word \<Rightarrow> bool" where
  "IsRipeIp x =
    (let a = drop_bit 24 (x AND 0xFF000000) in
     a = 2 \<or> a = 5 \<or> a = 25 \<or> a = 31 \<or> a = 37 \<or> a = 46 \<or> a = 51 \<or> a = 53 \<or>
     a = 57 \<or> a = 62 \<or> a = 77 \<or> a = 78 \<or> a = 79 \<or> a = 80 \<or> a = 81 \<or> a = 82 \<or>
     a = 83 \<or> a = 84 \<or> a = 85 \<or> a = 86 \<or> a = 87 \<or> a = 88 \<or> a = 89 \<or> a = 90 \<or>
     a = 91 \<or> a = 92 \<or> a = 93 \<or> a = 94 \<or> a = 95 \<or> a = 109 \<or> a = 141 \<or>
     a = 145 \<or> a = 151 \<or> a = 176 \<or> a = 178 \<or> a = 185 \<or> a = 188 \<or> a = 193 \<or>
     a = 194 \<or> a = 195 \<or> a = 212 \<or> a = 213 \<or> a = 217)"

definition IsTestnetIp :: "32 word \<Rightarrow> bool" where
  "IsTestnetIp x =
    (
     x AND 0xFFFFFF00 = 0xC0000200 \<or> x AND 0xFFFFFF00 = 0xC6336400 \<or> x AND 0xFFFFFF00 = 0xCB007100)"

definition IsAnonymousIp :: "32 word \<Rightarrow> bool" where
  "IsAnonymousIp x =
    (
     x AND 0xFFFFFFFF = 0x1F0E8527 \<or> x AND 0xFFFFFF00 = 0x2E138900 \<or>
     x AND 0xFFFFFF00 = 0x2E138F00 \<or> x AND 0xFFFFFFFE = 0x32074E58 \<or>
     x AND 0xFFFFFE00 = 0x3E490800 \<or> x AND 0xFFFFFFFF = 0x3FEB9BD2 \<or>
     x AND 0xFFFFFFFF = 0x400C7617 \<or> x AND 0xFFFFFFFF = 0x400C7658 \<or>
     x AND 0xFFFFFF00 = 0x432B9C00 \<or> x AND 0xFFFFFF00 = 0x450A8B00 \<or>
     x AND 0xFFFFFF00 = 0x46E8F500 \<or> x AND 0xFFFFFFFF = 0x4A5209E0 \<or>
     x AND 0xFFFFFE00 = 0x50FE4A00 \<or> x AND 0xFFFFFE00 = 0x5D735200 \<or>
     x AND 0xFFFFFE00 = 0x5D735400 \<or> x AND 0xFFFFFFFF = 0x602FE214 \<or>
     x AND 0xFFFFFF00 = 0x93CB7800 \<or> x AND 0xFFFFFFFF = 0xB0094B2B \<or>
     x AND 0xFFFFFFFF = 0xB9246491 \<or> x AND 0xFFFFFF00 = 0xC0EE1500 \<or>
     x AND 0xFFFFFFFF = 0xC16B1147 \<or> x AND 0xFFFFFFFF = 0xC6906958 \<or>
     x AND 0xFFFFFF00 = 0xC772DF00 \<or> x AND 0xFFFFFF00 = 0xC7BCEC00 \<or>
     x AND 0xFFFFFFFF = 0xC8C8C8C8 \<or> x AND 0xFFFFFF00 = 0xCE47A200 \<or>
     x AND 0xFFFFFF00 = 0xCEC46700 \<or> x AND 0xFFFFFFFF = 0xD02BE134 \<or>
     x AND 0xFFFFFF00 = 0xD1D8C600 \<or> x AND 0xFFFFFFFC = 0xD43FA9E8 \<or>
     x AND 0xFFFFFFFF = 0xD5EAF973 \<or> x AND 0xFFFFFF00 = 0xD897B400)"

definition IsCloudflareIp :: "32 word \<Rightarrow> bool" where
  "IsCloudflareIp x =
    (
     x AND 0xFFFFFC00 = 0x6715F400 \<or> x AND 0xFFFFFC00 = 0x6716C800 \<or>
     x AND 0xFFFFFC00 = 0x671F0400 \<or> x AND 0xFFF80000 = 0x68100000 \<or>
     x AND 0xFFFC0000 = 0x68180000 \<or> x AND 0xFFFFC000 = 0x6CA2C000 \<or>
     x AND 0xFFFFFC00 = 0x83004800 \<or> x AND 0xFFFFC000 = 0x8D654000 \<or>
     x AND 0xFFFE0000 = 0xA29E0000 \<or> x AND 0xFFF80000 = 0xAC400000 \<or>
     x AND 0xFFFFF000 = 0xADF53000 \<or> x AND 0xFFFFF000 = 0xBC726000 \<or>
     x AND 0xFFFFF000 = 0xBE5DF000 \<or> x AND 0xFFFFFC00 = 0xC5EAF000 \<or> x AND 0xFFFF8000 = 0xC6298000)"

definition IsPrivateIp :: "32 word \<Rightarrow> bool" where
  "IsPrivateIp x =
    (
     drop_bit 24 x = 10 \<or> x AND 0xFFF00000 = 0xAC100000 \<or> x AND 0xFFFF0000 = 0xC0A80000)"

definition IsPublicIp :: "32 word \<Rightarrow> bool" where
  "IsPublicIp x =
    (\<not> (
     x AND 0xFFFFFFFF = 0x00000000 \<or> x AND 0xFF000000 = 0x00000000 \<or>
     x AND 0xFF000000 = 0x0A000000 \<or> x AND 0xFF000000 = 0x7F000000 \<or>
     x AND 0xFFF00000 = 0xAC100000 \<or> x AND 0xFFFFFF00 = 0xC0000000 \<or>
     x AND 0xFFFF0000 = 0xC0A80000 \<or> x AND 0xFFFF0000 = 0xA9FE0000 \<or>
     x AND 0xFFC00000 = 0x64400000 \<or> x AND 0xFFFE0000 = 0xC6120000 \<or>
     x AND 0xF0000000 = 0xF0000000 \<or> x AND 0xFFFFFFFF = 0xFFFFFFFF))"

definition IsLoopbackIp :: "32 word \<Rightarrow> bool" where
  "IsLoopbackIp x = (drop_bit 24 x = 127)"

definition kIpUnknown :: int where "kIpUnknown = 0"
definition kIpMulticast :: int where "kIpMulticast = 1"
definition kIpLoopback :: int where "kIpLoopback = 2"
definition kIpPrivate :: int where "kIpPrivate = 3"
definition kIpTestnet :: int where "kIpTestnet = 4"
definition kIpAfrinic :: int where "kIpAfrinic = 5"
definition kIpLacnic :: int where "kIpLacnic = 6"
definition kIpApnic :: int where "kIpApnic = 7"
definition kIpArin :: int where "kIpArin = 8"
definition kIpRipe :: int where "kIpRipe = 9"
definition kIpDod :: int where "kIpDod = 10"
definition kIpAtt :: int where "kIpAtt = 11"
definition kIpApple :: int where "kIpApple = 12"
definition kIpFord :: int where "kIpFord = 13"
definition kIpCogent :: int where "kIpCogent = 14"
definition kIpPrudential :: int where "kIpPrudential = 15"
definition kIpUsps :: int where "kIpUsps = 16"
definition kIpComcast :: int where "kIpComcast = 17"
definition kIpFuture :: int where "kIpFuture = 18"
definition kIpAnonymous :: int where "kIpAnonymous = 19"

lemmas kIp_defs =
  kIpUnknown_def kIpMulticast_def kIpLoopback_def kIpPrivate_def kIpTestnet_def kIpAfrinic_def kIpLacnic_def
  kIpApnic_def kIpArin_def kIpRipe_def kIpDod_def kIpAtt_def kIpApple_def kIpFord_def kIpCogent_def
  kIpPrudential_def kIpUsps_def kIpComcast_def kIpFuture_def kIpAnonymous_def

definition CategorizeIp :: "32 word \<Rightarrow> int" where
  "CategorizeIp x =
    (if IsLoopbackIp x then kIpLoopback
     else if IsPrivateIp x then kIpPrivate
     else if IsMulticastIp x then kIpMulticast
     else if IsAnonymousIp x then kIpAnonymous
     else if IsTestnetIp x then kIpTestnet
     else if IsAfrinicIp x then kIpAfrinic
     else if IsLacnicIp x then kIpLacnic
     else if IsApnicIp x then kIpApnic
     else if IsArinIp x then kIpArin
     else if IsRipeIp x then kIpRipe
     else if IsDodIp x then kIpDod
     else let a = drop_bit 24 (x AND 0xFF000000) in
     if a = 12 then kIpAtt
     else if a = 17 then kIpApple
     else if a = 19 then kIpFord
     else if a = 38 then kIpCogent
     else if a = 48 then kIpPrudential
     else if a = 56 then kIpUsps
     else if a = 73 then kIpComcast
     else if a \<ge> 240 then kIpFuture
     else kIpUnknown)"

definition GetIpCategoryName :: "int \<Rightarrow> string option" where
  "GetIpCategoryName c =
    (if c = kIpMulticast then Some ''MULTICAST''
     else if c = kIpLoopback then Some ''LOOPBACK''
     else if c = kIpPrivate then Some ''PRIVATE''
     else if c = kIpTestnet then Some ''TESTNET''
     else if c = kIpAfrinic then Some ''AFRINIC''
     else if c = kIpLacnic then Some ''LACNIC''
     else if c = kIpApnic then Some ''APNIC''
     else if c = kIpArin then Some ''ARIN''
     else if c = kIpRipe then Some ''RIPE''
     else if c = kIpDod then Some ''DOD''
     else if c = kIpAtt then Some ''AT&T''
     else if c = kIpApple then Some ''APPLE''
     else if c = kIpFord then Some ''FORD''
     else if c = kIpCogent then Some ''COGENT''
     else if c = kIpPrudential then Some ''PRUDENTIAL''
     else if c = kIpUsps then Some ''USPS''
     else if c = kIpComcast then Some ''COMCAST''
     else if c = kIpFuture then Some ''FUTURE''
     else if c = kIpAnonymous then Some ''ANONYMOUS''
     else None)"


subsection \<open>Printed addresses are read back\<close>

definition octet :: "nat \<Rightarrow> 32 word \<Rightarrow> nat" where
  "octet k x = unat (drop_bit (8 * k) x AND 0xFF)"

definition ip_str :: "32 word \<Rightarrow> bytes" where
  "ip_str x = dec_str (octet 3 x) @ [0x2E] @ dec_str (octet 2 x) @ [0x2E] @ dec_str (octet 1 x) @ [0x2E] @ dec_str (octet 0 x)"

lemma octet_le: "octet k x \<le> 255"
proof -
  have "drop_bit (8 * k) x AND 0xFF = take_bit 8 (drop_bit (8 * k) x)" by (simp add: take_bit_eq_mask mask_eq_exp_minus_1)
  then have "octet k x = take_bit 8 (unat (drop_bit (8 * k) x))" by (simp add: octet_def unsigned_take_bit_eq)
  then show ?thesis using take_bit_nat_less_exp [of 8 "unat (drop_bit (8 * k) x)"] by simp
qed

lemma octet_bounds [simp]: "\<not> 255 < octet k x" "octet k x < 4294967296"
  using octet_le [of k x] by simp_all

lemma octets_join:
  "push_bit 8 (push_bit 8 (push_bit 8 (push_bit 8 0 OR of_nat (octet 3 x)) OR of_nat (octet 2 x)) OR of_nat (octet 1 x)) OR
     of_nat (octet 0 x) = x"
proof -
  have m: "(0xFF :: 32 word) = mask 8" by (simp add: mask_eq_exp_minus_1)
  show ?thesis
  proof (rule bit_word_eqI)
    fix n
    assume "n < LENGTH(32)"
    then consider "n < 8" | "8 \<le> n" "n < 16" | "16 \<le> n" "n < 24" | "24 \<le> n" "n < 32" by fastforce
    then show "bit (push_bit 8 (push_bit 8 (push_bit 8 (push_bit 8 0 OR of_nat (octet 3 x)) OR of_nat (octet 2 x)) OR
        of_nat (octet 1 x)) OR of_nat (octet 0 x) :: 32 word) n = bit x n"
      by cases (simp_all add: octet_def m bit_or_iff bit_and_iff bit_push_bit_iff bit_drop_bit_eq bit_mask_iff less_diff_conv2)
  qed
qed

lemma ip_loop_digits:
  "list_all isdigit ds \<Longrightarrow> dec_from b ds < 2 ^ 32 \<Longrightarrow> (dotted \<Longrightarrow> dec_from b ds \<le> 255) \<Longrightarrow>
   ip_loop b x dotted (ds @ cs) = ip_loop (dec_from b ds) x dotted cs"
proof (induction ds arbitrary: b)
  case (Cons d ds)
  have "b * 10 + digit_val d \<le> dec_from b (d # ds)" using dec_from_ge by simp
  then show ?case using Cons by auto
qed simp

lemma ip_loop_number:
  "k < 2 ^ 32 \<Longrightarrow> (dotted \<Longrightarrow> k \<le> 255) \<Longrightarrow> ip_loop 0 x dotted (dec_str k @ cs) = ip_loop k x dotted cs"
  by (subst ip_loop_digits) (simp_all add: dec_str_digits)

lemma isdigit_dot: "\<not> isdigit 0x2E" "\<not> isdigit 0x3A"
  by (simp_all add: isdigit_def)

lemma ip_loop_dotted: "ip_loop 0 0 False (ip_str x) = uint x"
  using octet_le [of _ x] octets_join [of x] ip_loop_number [of "octet 0 x" True _ "[]"]
  by (simp add: ip_str_def ip_loop_number isdigit_dot)

lemma strchr_append: "c \<notin> set xs \<Longrightarrow> strchr (xs @ c # ys) c = Some (length xs)"
  by (induction xs) auto

lemma memrchr_None: "memrchr xs c = None \<longleftrightarrow> c \<notin> set xs"
  by (induction xs) (auto split: option.splits)

lemma memrchr_append: "c \<notin> set ys \<Longrightarrow> memrchr (xs @ c # ys) c = Some (length xs)"
proof (induction xs)
  case Nil
  then show ?case using memrchr_None [of ys c] by simp
qed auto

lemma ip_str_chars: "c \<in> {0x20, 0x2C, 0x2F, 0x3A} \<Longrightarrow> c \<notin> set (ip_str x)"
proof -
  assume c: "c \<in> {0x20, 0x2C, 0x2F, 0x3A :: byte}"
  then have "c \<notin> set (dec_str k)" for k using dec_str_digits [of k] by (auto simp: list_all_iff isdigit_def)
  with c show ?thesis by (auto simp: ip_str_def)
qed

lemma cidr_loop_digits:
  "list_all isdigit ds \<Longrightarrow> dec_from v ds \<le> 32 \<Longrightarrow> cidr_loop (int v) ds = int (dec_from v ds)"
proof (induction ds arbitrary: v)
  case (Cons d ds)
  have "v * 10 + digit_val d \<le> dec_from v (d # ds)" using dec_from_ge by simp
  then have "\<not> 32 < int v * 10 + int (digit_val d)" using Cons.prems(2) by linarith
  then show ?case using Cons.prems Cons.IH [of "v * 10 + digit_val d"] by simp
qed simp

lemma fwd_loop_digits:
  "list_all isdigit ds \<Longrightarrow> dec_from t ds \<le> 255 \<Longrightarrow>
   fwd_loop t x (ds @ c # cs) = fwd_loop (dec_from t ds) x (c # cs)"
proof (induction ds arbitrary: t)
  case (Cons d ds)
  have "t * 10 + digit_val d \<le> dec_from t (d # ds)" using dec_from_ge by simp
  then show ?case using Cons by auto
qed simp

lemma fwd_loop_number: "k \<le> 255 \<Longrightarrow> fwd_loop 0 x (dec_str k @ c # cs) = fwd_loop k x (c # cs)"
  by (subst fwd_loop_digits) (simp_all add: dec_str_digits)

lemma fwd_loop_dotted:
  "\<exists>t y. fwd_loop 0 0 (ip_str x @ 0x3A # cs) = Some (t, y, 0x3A, cs) \<and> push_bit 8 y OR of_nat t = x"
  using octet_le [of _ x] octets_join [of x]
  by (auto simp: ip_str_def fwd_loop_number isdigit_dot)

lemma fwd_port_digits:
  "list_all isdigit ds \<Longrightarrow> dec_from t ds \<le> 65535 \<Longrightarrow> fwd_port t ds = Some (dec_from t ds)"
proof (induction ds arbitrary: t)
  case (Cons d ds)
  have "t * 10 + digit_val d \<le> dec_from t (d # ds)" using dec_from_ge by simp
  then show ?case using Cons by auto
qed simp

text \<open>(C34) Every 32-bit address is read back from what is printed: from the four numbers with dots and from one
  decimal number by \<open>ParseIp\<close>, with a number of bits by \<open>ParseCidr\<close>, and with a port, behind any other
  entries, by \<open>ParseForwarded\<close>.\<close>

theorem address_roundtrip:
  assumes "1 \<le> k" "k \<le> 32" "p \<le> 65535"
  shows "ParseIp (Buf (ip_str x)) = uint x \<and>
         ParseIp (Buf (dec_str (unat x))) = uint x \<and>
         ParseCidr (ip_str x @ [0x2F] @ dec_str k) None = \<lparr>cidr_addr = uint x, cidr_cidr = Some (int k)\<rparr> \<and>
         ParseForwarded (Buf (pre @ [0x2C, 0x20] @ ip_str x @ [0x3A] @ dec_str p)) after = Some (x, of_nat p)"
proof -
  have ne: "ip_str x \<noteq> []" by (simp add: ip_str_def)
  then have ip: "ParseIp (Buf (ip_str x)) = uint x" by (simp add: ParseIp_def ip_loop_dotted)
  have "unat x < 2 ^ LENGTH(32)" by (rule unsigned_less)
  then have dec: "ParseIp (Buf (dec_str (unat x))) = uint x"
    using ip_loop_number [of "unat x" False 0 "[]"] by (simp add: ParseIp_def del: power_numeral)
  have "strchr (ip_str x @ 0x2F # dec_str k) 0x2F = Some (length (ip_str x))"
    by (rule strchr_append) (simp add: ip_str_chars)
  moreover have "cidr_loop 0 (dec_str k) = int k"
    using cidr_loop_digits [of "dec_str k" 0] assms(2) by (simp add: dec_str_digits)
  moreover have "uint x \<noteq> - 1" using uint_ge_0 [of x] by linarith
  ultimately have cidr: "ParseCidr (ip_str x @ [0x2F] @ dec_str k) None = \<lparr>cidr_addr = uint x, cidr_cidr = Some (int k)\<rparr>"
    using ip assms(1) by (simp add: ParseCidr_def)
  define t where "t = ip_str x @ 0x3A # dec_str p"
  have "0x2C \<notin> set (0x20 # t)"
    using ip_str_chars [of "0x2C" x] dec_str_digits [of p] by (auto simp: t_def list_all_iff isdigit_def)
  then have "memrchr (pre @ 0x2C # 0x20 # t) 0x2C = Some (length pre)" by (rule memrchr_append)
  then have b: "fwd_bytes (pre @ 0x2C # 0x20 # t) after = t"
    by (simp add: fwd_bytes_def nth_append t_def)
  have "fwd_port 0 (dec_str p) = Some p"
    using fwd_port_digits [of "dec_str p" 0] assms(3) by (simp add: dec_str_digits)
  then have "ParseForwarded (Buf (pre @ [0x2C, 0x20] @ ip_str x @ [0x3A] @ dec_str p)) after = Some (x, of_nat p)"
    using fwd_loop_dotted [of x "dec_str p"] b by (auto simp: ParseForwarded_def t_def)
  with ip dec cidr show ?thesis by blast
qed

theorem address_roundtrip_witness:
  "ParseCidr (str ''127.0.0.1/8'') None = \<lparr>cidr_addr = 2130706433, cidr_cidr = Some 8\<rparr> \<and>
   ParseForwarded (Buf (str ''x, 127.0.0.1:80'')) (\<lambda>_. 0) = Some (0x7F000001, 80)"
proof -
  have "ip_str 0x7F000001 = str ''127.0.0.1''" "dec_str 8 = str ''8''" "dec_str 80 = str ''80''"
    by (simp_all add: ip_str_def octet_def dec_str.simps digit_byte_def str_def)
  then show ?thesis
    using address_roundtrip [of 8 80 "0x7F000001" "str ''x''" "\<lambda>_. 0"] by (simp add: str_def)
qed


subsection \<open>The classes\<close>

definition afrinic_octets :: "nat list" where
  "afrinic_octets = [
     41, 102, 105, 154, 196, 197]"

definition lacnic_octets :: "nat list" where
  "lacnic_octets = [
     177, 179, 181, 186, 187, 189, 190, 191, 200, 201]"

definition apnic_octets :: "nat list" where
  "apnic_octets = [
     1, 14, 27, 36, 39, 42, 43, 49, 58, 59, 60, 61, 101, 103, 106, 110, 111, 112, 113, 114, 115, 116, 117,
     118, 119, 120, 121, 122, 123, 124, 125, 126, 133, 150, 153, 163, 171, 175, 180, 182, 183, 202, 203,
     210, 211, 218, 219, 220, 221, 222, 223]"

definition arin_octets :: "nat list" where
  "arin_octets = [
     3, 4, 8, 9, 13, 15, 16, 18, 20, 23, 24, 32, 34, 35, 40, 44, 45, 47, 50, 52, 54, 63, 64, 65, 66, 67, 68,
     69, 70, 71, 72, 74, 75, 76, 96, 97, 98, 99, 100, 104, 107, 108, 128, 129, 130, 131, 132, 134, 135, 136,
     137, 138, 139, 140, 142, 143, 144, 146, 147, 148, 149, 152, 155, 156, 157, 158, 159, 160, 161, 162,
     164, 165, 166, 167, 168, 169, 170, 172, 173, 174, 184, 192, 198, 199, 204, 205, 206, 207, 208, 209, 216]"

definition ripe_octets :: "nat list" where
  "ripe_octets = [
     2, 5, 25, 31, 37, 46, 51, 53, 57, 62, 77, 78, 79, 80, 81, 82, 83, 84, 85, 86, 87, 88, 89, 90, 91, 92,
     93, 94, 95, 109, 141, 145, 151, 176, 178, 185, 188, 193, 194, 195, 212, 213, 217]"

definition dod_octets :: "nat list" where
  "dod_octets = [
     6, 7, 11, 21, 22, 26, 28, 29, 30, 33, 55, 214, 215]"

definition other_octets :: "nat list" where
  "other_octets = [0, 10, 12, 17, 19, 38, 48, 56, 73, 127]"

text \<open>The lists together hold every first number below 224: they are merged step by step.\<close>

fun merge_sorted :: "nat list \<Rightarrow> nat list \<Rightarrow> nat list" where
  "merge_sorted [] ys = ys"
| "merge_sorted xs [] = xs"
| "merge_sorted (x # xs) (y # ys) = (if x \<le> y then x # merge_sorted xs (y # ys) else y # merge_sorted (x # xs) ys)"

lemma set_merge_sorted: "set (merge_sorted xs ys) = set xs \<union> set ys"
  by (induction xs ys rule: merge_sorted.induct) auto

lemma merge_sorted_weak: "merge_sorted xs ys = merge_sorted xs ys"
  by (rule refl)

definition merged1 :: "nat list" where
  "merged1 = [
     41, 102, 105, 154, 177, 179, 181, 186, 187, 189, 190, 191, 196, 197, 200, 201]"

lemma merged1: "merge_sorted afrinic_octets lacnic_octets = merged1"
  unfolding afrinic_octets_def lacnic_octets_def merged1_def by (simp cong: merge_sorted_weak)

definition merged2 :: "nat list" where
  "merged2 = [
     1, 14, 27, 36, 39, 41, 42, 43, 49, 58, 59, 60, 61, 101, 102, 103, 105, 106, 110, 111, 112, 113, 114,
     115, 116, 117, 118, 119, 120, 121, 122, 123, 124, 125, 126, 133, 150, 153, 154, 163, 171, 175, 177,
     179, 180, 181, 182, 183, 186, 187, 189, 190, 191, 196, 197, 200, 201, 202, 203, 210, 211, 218, 219,
     220, 221, 222, 223]"

lemma merged2: "merge_sorted merged1 apnic_octets = merged2"
  unfolding merged1_def apnic_octets_def merged2_def by (simp cong: merge_sorted_weak)

definition merged3 :: "nat list" where
  "merged3 = [
     1, 3, 4, 8, 9, 13, 14, 15, 16, 18, 20, 23, 24, 27, 32, 34, 35, 36, 39, 40, 41, 42, 43, 44, 45, 47, 49,
     50, 52, 54, 58, 59, 60, 61, 63, 64, 65, 66, 67, 68, 69, 70, 71, 72, 74, 75, 76, 96, 97, 98, 99, 100,
     101, 102, 103, 104, 105, 106, 107, 108, 110, 111, 112, 113, 114, 115, 116, 117, 118, 119, 120, 121,
     122, 123, 124, 125, 126, 128, 129, 130, 131, 132, 133, 134, 135, 136, 137, 138, 139, 140, 142, 143,
     144, 146, 147, 148, 149, 150, 152, 153, 154, 155, 156, 157, 158, 159, 160, 161, 162, 163, 164, 165,
     166, 167, 168, 169, 170, 171, 172, 173, 174, 175, 177, 179, 180, 181, 182, 183, 184, 186, 187, 189,
     190, 191, 192, 196, 197, 198, 199, 200, 201, 202, 203, 204, 205, 206, 207, 208, 209, 210, 211, 216,
     218, 219, 220, 221, 222, 223]"

lemma merged3: "merge_sorted merged2 arin_octets = merged3"
  unfolding merged2_def arin_octets_def merged3_def by (simp cong: merge_sorted_weak)

definition merged4 :: "nat list" where
  "merged4 = [
     1, 2, 3, 4, 5, 8, 9, 13, 14, 15, 16, 18, 20, 23, 24, 25, 27, 31, 32, 34, 35, 36, 37, 39, 40, 41, 42,
     43, 44, 45, 46, 47, 49, 50, 51, 52, 53, 54, 57, 58, 59, 60, 61, 62, 63, 64, 65, 66, 67, 68, 69, 70, 71,
     72, 74, 75, 76, 77, 78, 79, 80, 81, 82, 83, 84, 85, 86, 87, 88, 89, 90, 91, 92, 93, 94, 95, 96, 97, 98,
     99, 100, 101, 102, 103, 104, 105, 106, 107, 108, 109, 110, 111, 112, 113, 114, 115, 116, 117, 118, 119,
     120, 121, 122, 123, 124, 125, 126, 128, 129, 130, 131, 132, 133, 134, 135, 136, 137, 138, 139, 140,
     141, 142, 143, 144, 145, 146, 147, 148, 149, 150, 151, 152, 153, 154, 155, 156, 157, 158, 159, 160,
     161, 162, 163, 164, 165, 166, 167, 168, 169, 170, 171, 172, 173, 174, 175, 176, 177, 178, 179, 180,
     181, 182, 183, 184, 185, 186, 187, 188, 189, 190, 191, 192, 193, 194, 195, 196, 197, 198, 199, 200,
     201, 202, 203, 204, 205, 206, 207, 208, 209, 210, 211, 212, 213, 216, 217, 218, 219, 220, 221, 222, 223]"

lemma merged4: "merge_sorted merged3 ripe_octets = merged4"
  unfolding merged3_def ripe_octets_def merged4_def by (simp cong: merge_sorted_weak)

definition merged5 :: "nat list" where
  "merged5 = [
     1, 2, 3, 4, 5, 6, 7, 8, 9, 11, 13, 14, 15, 16, 18, 20, 21, 22, 23, 24, 25, 26, 27, 28, 29, 30, 31, 32,
     33, 34, 35, 36, 37, 39, 40, 41, 42, 43, 44, 45, 46, 47, 49, 50, 51, 52, 53, 54, 55, 57, 58, 59, 60, 61,
     62, 63, 64, 65, 66, 67, 68, 69, 70, 71, 72, 74, 75, 76, 77, 78, 79, 80, 81, 82, 83, 84, 85, 86, 87, 88,
     89, 90, 91, 92, 93, 94, 95, 96, 97, 98, 99, 100, 101, 102, 103, 104, 105, 106, 107, 108, 109, 110, 111,
     112, 113, 114, 115, 116, 117, 118, 119, 120, 121, 122, 123, 124, 125, 126, 128, 129, 130, 131, 132,
     133, 134, 135, 136, 137, 138, 139, 140, 141, 142, 143, 144, 145, 146, 147, 148, 149, 150, 151, 152,
     153, 154, 155, 156, 157, 158, 159, 160, 161, 162, 163, 164, 165, 166, 167, 168, 169, 170, 171, 172,
     173, 174, 175, 176, 177, 178, 179, 180, 181, 182, 183, 184, 185, 186, 187, 188, 189, 190, 191, 192,
     193, 194, 195, 196, 197, 198, 199, 200, 201, 202, 203, 204, 205, 206, 207, 208, 209, 210, 211, 212,
     213, 214, 215, 216, 217, 218, 219, 220, 221, 222, 223]"

lemma merged5: "merge_sorted merged4 dod_octets = merged5"
  unfolding merged4_def dod_octets_def merged5_def by (simp cong: merge_sorted_weak)

lemma merged6: "merge_sorted merged5 other_octets = [0..<224]"
  unfolding merged5_def other_octets_def by (simp add: upt_rec cong: merge_sorted_weak)

lemma octets_known:
  "n < 224 \<Longrightarrow> n \<in> set afrinic_octets \<union> set lacnic_octets \<union> set apnic_octets \<union> set arin_octets \<union> set ripe_octets \<union>
     set dod_octets \<union> set other_octets"
  using merged1 merged2 merged3 merged4 merged5 merged6
  by (metis (no_types, lifting) set_merge_sorted atLeastLessThan_iff set_upt zero_le)

lemma octet_less: "unat (drop_bit 24 x) < 256" for x :: "32 word"
proof -
  have "drop_bit 24 x = take_bit 8 (drop_bit 24 x)" by (rule bit_word_eqI) (auto simp: bit_take_bit_iff bit_drop_bit_eq dest: bit_imp_le_length)
  then have "unat (drop_bit 24 x) = take_bit 8 (unat (drop_bit 24 x))" by (metis unsigned_take_bit_eq)
  then show ?thesis using take_bit_nat_less_exp [of 8 "unat (drop_bit 24 x)"] by simp
qed

lemma top_octet: "drop_bit 24 (x AND 0xFF000000) = drop_bit 24 x" for x :: "32 word"
proof -
  have "drop_bit 24 (x AND 0xFF000000) = drop_bit 24 x AND mask 8" by (simp add: mask_eq_exp_minus_1)
  also have "\<dots> = drop_bit 24 x"
    by (rule bit_word_eqI) (auto simp: bit_and_iff bit_mask_iff bit_drop_bit_eq dest: bit_imp_le_length)
  finally show ?thesis .
qed

lemma octet_eq:
  "drop_bit 24 x = numeral k \<longleftrightarrow> unat (drop_bit 24 x) = unat (numeral k :: 32 word)"
  "drop_bit 24 x = 1 \<longleftrightarrow> unat (drop_bit 24 x) = 1" "drop_bit 24 x = 0 \<longleftrightarrow> unat (drop_bit 24 x) = 0"
  "numeral k \<le> drop_bit 24 x \<longleftrightarrow> unat (numeral k :: 32 word) \<le> unat (drop_bit 24 x)" for x :: "32 word"
  by (simp_all add: word_unat_eq_iff word_le_nat_alt)

lemma multicast_octet: "IsMulticastIp x \<longleftrightarrow> 224 \<le> unat (drop_bit 24 x) \<and> unat (drop_bit 24 x) < 240"
proof -
  have "unat (drop_bit 28 x) = unat (drop_bit 24 x) div 16"
    by (simp add: unat_drop_bit div_mult2_eq [symmetric])
  then show ?thesis by (auto simp: IsMulticastIp_def word_unat_eq_iff)
qed

lemma afrinic_octets: "unat (drop_bit 24 x) \<in> set afrinic_octets \<Longrightarrow> IsAfrinicIp x"
  unfolding IsAfrinicIp_def top_octet Let_def octet_eq by (auto simp: afrinic_octets_def)

lemma lacnic_octets: "unat (drop_bit 24 x) \<in> set lacnic_octets \<Longrightarrow> IsLacnicIp x"
  unfolding IsLacnicIp_def top_octet Let_def octet_eq by (auto simp: lacnic_octets_def)

lemma apnic_octets: "unat (drop_bit 24 x) \<in> set apnic_octets \<Longrightarrow> IsApnicIp x"
  unfolding IsApnicIp_def top_octet Let_def octet_eq by (auto simp: apnic_octets_def)

lemma arin_octets: "unat (drop_bit 24 x) \<in> set arin_octets \<Longrightarrow> IsArinIp x"
  unfolding IsArinIp_def top_octet Let_def octet_eq by (auto simp: arin_octets_def)

lemma ripe_octets: "unat (drop_bit 24 x) \<in> set ripe_octets \<Longrightarrow> IsRipeIp x"
  unfolding IsRipeIp_def top_octet Let_def octet_eq by (auto simp: ripe_octets_def)

lemma dod_octets: "unat (drop_bit 24 x) \<in> set dod_octets \<Longrightarrow> IsDodIp x"
  unfolding IsDodIp_def top_octet Let_def octet_eq by (auto simp: dod_octets_def)

lemmas registry_octets = afrinic_octets lacnic_octets apnic_octets arin_octets ripe_octets dod_octets

lemma mask_octet_zero: "drop_bit 24 x = 0 \<Longrightarrow> drop_bit 24 c \<noteq> 0 \<Longrightarrow> x AND m \<noteq> c" for x c m :: "32 word"
  by (metis drop_bit_and bit.conj_zero_left)

lemma CategorizeIp_unknown: "CategorizeIp x = kIpUnknown \<longleftrightarrow> drop_bit 24 x = 0"
proof
  assume "CategorizeIp x = kIpUnknown"
  then have n: "\<not> IsLoopbackIp x" "\<not> IsPrivateIp x" "\<not> IsMulticastIp x" "\<not> IsAfrinicIp x" "\<not> IsLacnicIp x" "\<not> IsApnicIp x"
      "\<not> IsArinIp x" "\<not> IsRipeIp x" "\<not> IsDodIp x"
      "unat (drop_bit 24 x) \<notin> set [10, 12, 17, 19, 38, 48, 56, 73, 127]" "unat (drop_bit 24 x) < 240"
    unfolding CategorizeIp_def top_octet Let_def octet_eq
    by (auto simp: kIp_defs IsLoopbackIp_def IsPrivateIp_def octet_eq split: if_split_asm)
  then have "unat (drop_bit 24 x) < 224" using multicast_octet [of x] by simp
  then have "unat (drop_bit 24 x) \<in> set other_octets" using octets_known n registry_octets [of x] by blast
  then show "drop_bit 24 x = 0" using n(10) by (auto simp: other_octets_def octet_eq)
next
  assume z: "drop_bit 24 x = 0"
  then show "CategorizeIp x = kIpUnknown"
    using mask_octet_zero [OF z] multicast_octet [of x]
    unfolding CategorizeIp_def IsLoopbackIp_def IsPrivateIp_def IsAnonymousIp_def IsTestnetIp_def IsAfrinicIp_def
        IsLacnicIp_def IsApnicIp_def IsArinIp_def IsRipeIp_def IsDodIp_def top_octet Let_def z
    by simp
qed

lemma CategorizeIp_range: "CategorizeIp x \<in> {0..19}"
  unfolding CategorizeIp_def kIp_defs Let_def by simp

lemma GetIpCategoryName_None: "GetIpCategoryName c = None \<longleftrightarrow> c \<notin> {1..19}"
proof -
  have s: "{1..19 :: int} = {1, 2, 3, 4, 5, 6, 7, 8, 9, 10, 11, 12, 13, 14, 15, 16, 17, 18, 19}"
    by (simp add: simp_from_to)
  have "GetIpCategoryName c \<noteq> None" if "c \<in> {1..19}"
    using that unfolding s GetIpCategoryName_def kIp_defs by (elim insertE emptyE; simp)
  moreover have "c \<in> {1..19}" if "GetIpCategoryName c \<noteq> None"
    using that unfolding GetIpCategoryName_def kIp_defs by (simp split: if_split_asm)
  ultimately show ?thesis by blast
qed

lemma and_high_mask: "k + m = 32 \<Longrightarrow> x AND push_bit k (mask m) = push_bit k (drop_bit k x)" for x :: "32 word"
  by (rule bit_word_eqI) (auto simp: bit_and_iff bit_push_bit_iff bit_mask_iff bit_drop_bit_eq)

lemma mask_top:
  "x AND 0xFF000000 = push_bit 24 (drop_bit 24 x)" "x AND 0xF0000000 = push_bit 28 (drop_bit 28 x)" for x :: "32 word"
  using and_high_mask [of 24 8 x] and_high_mask [of 28 4 x] by (simp_all add: mask_eq_exp_minus_1)

lemma not_public:
  assumes "drop_bit 24 x \<in> {0, 10, 127} \<or> 240 \<le> drop_bit 24 x \<or> IsPrivateIp x"
  shows "\<not> IsPublicIp x"
proof -
  consider "drop_bit 24 x \<in> {0, 10, 127}" | "240 \<le> drop_bit 24 x" | "x AND 0xFFF00000 = 0xAC100000" | "x AND 0xFFFF0000 = 0xC0A80000"
    using assms by (auto simp: IsPrivateIp_def)
  then show ?thesis
  proof cases
    case 1
    then have "x AND 0xFF000000 \<in> {0, 0x0A000000, 0x7F000000}" by (auto simp: mask_top)
    then show ?thesis by (auto simp: IsPublicIp_def)
  next
    case 2
    then have "unat (drop_bit 28 x) = 15"
      using octet_less [of x] by (simp add: unat_drop_bit div_mult2_eq [symmetric] word_le_nat_alt)
    then have "drop_bit 28 x = 15" by (simp add: word_unat_eq_iff)
    then have "x AND 0xF0000000 = 0xF0000000" by (simp add: mask_top)
    then show ?thesis by (simp add: IsPublicIp_def)
  qed (simp_all add: IsPublicIp_def)
qed

text \<open>(C35) Every address has a category with a name, except those whose first number is 0; and the addresses that
  are private, of the loopback network, reserved for the future or of that nameless kind are not public.\<close>

theorem CategorizeIp_named:
  "(GetIpCategoryName (CategorizeIp x) = None \<longleftrightarrow> drop_bit 24 x = 0) \<and>
   (CategorizeIp x = kIpUnknown \<or> IsLoopbackIp x \<or> IsPrivateIp x \<or> 240 \<le> drop_bit 24 x \<longrightarrow> \<not> IsPublicIp x)"
proof -
  have "GetIpCategoryName (CategorizeIp x) = None \<longleftrightarrow> CategorizeIp x = kIpUnknown"
    using CategorizeIp_range [of x] by (auto simp: GetIpCategoryName_None kIpUnknown_def)
  then show ?thesis using CategorizeIp_unknown [of x] not_public [of x] by (auto simp: IsLoopbackIp_def)
qed

theorem CategorizeIp_named_witness:
  "IsPrivateIp 0xC0A80001 \<and> \<not> IsPublicIp 0xC0A80001 \<and> GetIpCategoryName (CategorizeIp 0x00000001) = None"
proof -
  have "IsPrivateIp 0xC0A80001" by (simp add: IsPrivateIp_def)
  then show ?thesis using CategorizeIp_named [of "0xC0A80001"] CategorizeIp_named [of "0x00000001"] by simp
qed


text \<open>The number of dots is counted but not looked at, and the number of bits is searched for beyond the length.\<close>

lemma ParseIp_dots: "ParseIp (Buf (str ''1.2.3.4.5'')) = 33752069" "ParseIp (Buf (str ''.'')) = 0"
  by (simp_all add: ParseIp_def str_def isdigit_def digit_val_def)

lemma ParseCidr_beyond: "cidr_addr (ParseCidr (str ''1.2.3.4/8'') (Some 7)) = - 1"
  by (simp add: ParseCidr_def ParseIp_def str_def isdigit_def digit_val_def)

end
