(* ===== verification/Wide_Char.thy ===== *)
theory Wide_Char
  imports Thompson_Pike Bisect
begin

text \<open>
  Wide characters: the conversions \<open>towlower\<close> and \<open>towupper\<close>, the classes \<open>iswupper\<close>, \<open>iswlower\<close>,
  \<open>iswpunct\<close>, \<open>iswspace\<close>, \<open>iswseparator\<close> and the small ones, and the lookup of a class by its name
  (\<open>libc/str\<close>).  A character is a 32-bit word; the entries of the tables are small enough to be numbers.
  The binary searches are compared with linear ones, and the conversions are shown to be stable.
\<close>

subsection \<open>The tables of the case conversions\<close>

definition kLower :: "(nat \<times> nat \<times> int) list" where
  "kLower = [
     (0x00C0, 0x00D6, 32), (0x00D8, 0x00DE, 32), (0x0178, 0x0178, - 121), (0x0179, 0x0179, 1),
     (0x017B, 0x017B, 1), (0x017D, 0x017D, 1), (0x0181, 0x0181, 210), (0x0182, 0x0182, 1),
     (0x0184, 0x0184, 1), (0x0186, 0x0186, 206), (0x0187, 0x0187, 1), (0x0189, 0x018A, 205),
     (0x018B, 0x018B, 1), (0x018E, 0x018E, 79), (0x018F, 0x018F, 202), (0x0190, 0x0190, 203),
     (0x0191, 0x0191, 1), (0x0193, 0x0193, 205), (0x0194, 0x0194, 207), (0x0196, 0x0196, 211),
     (0x0197, 0x0197, 209), (0x0198, 0x0198, 1), (0x019C, 0x019C, 211), (0x019D, 0x019D, 213),
     (0x019F, 0x019F, 214), (0x01A0, 0x01A0, 1), (0x01A2, 0x01A2, 1), (0x01A4, 0x01A4, 1),
     (0x01A6, 0x01A6, 218), (0x01A7, 0x01A7, 1), (0x01A9, 0x01A9, 218), (0x01AC, 0x01AC, 1),
     (0x01AE, 0x01AE, 218), (0x01AF, 0x01AF, 1), (0x01B1, 0x01B2, 217), (0x01B3, 0x01B3, 1),
     (0x01B5, 0x01B5, 1), (0x01B7, 0x01B7, 219), (0x01B8, 0x01B8, 1), (0x01BC, 0x01BC, 1),
     (0x01C4, 0x01C4, 2), (0x01C5, 0x01C5, 1), (0x01C7, 0x01C7, 2), (0x01C8, 0x01C8, 1),
     (0x01CA, 0x01CA, 2), (0x01CB, 0x01CB, 1), (0x01CD, 0x01CD, 1), (0x01F1, 0x01F1, 2),
     (0x01F2, 0x01F2, 1), (0x01F4, 0x01F4, 1), (0x01F6, 0x01F6, - 97), (0x01F7, 0x01F7, - 56),
     (0x0220, 0x0220, - 130), (0x023B, 0x023B, 1), (0x023D, 0x023D, - 163), (0x0241, 0x0241, 1),
     (0x0243, 0x0243, - 195), (0x0244, 0x0244, 69), (0x0245, 0x0245, 71), (0x0246, 0x0246, 1),
     (0x0248, 0x0248, 1), (0x024A, 0x024A, 1), (0x024C, 0x024C, 1), (0x024E, 0x024E, 1),
     (0x0386, 0x0386, 38), (0x0388, 0x038A, 37), (0x038C, 0x038C, 64), (0x038E, 0x038F, 63),
     (0x0391, 0x03A1, 32), (0x03A3, 0x03AB, 32), (0x03DC, 0x03DC, 1), (0x03F4, 0x03F4, - 60),
     (0x0400, 0x040F, 80), (0x0410, 0x042F, 32), (0x0460, 0x0460, 1), (0x0462, 0x0462, 1),
     (0x0464, 0x0464, 1), (0x0472, 0x0472, 1), (0x0490, 0x0490, 1), (0x0498, 0x0498, 1),
     (0x049A, 0x049A, 1), (0x0531, 0x0556, 48), (0x10A0, 0x10C5, 7264), (0x10C7, 0x10C7, 7264),
     (0x10CD, 0x10CD, 7264), (0x13F0, 0x13F5, 8), (0x1C90, 0x1CBA, - 3008), (0x1CBD, 0x1CBF, - 3008),
     (0x1F08, 0x1F0F, - 8), (0x1F18, 0x1F1D, - 8), (0x1F28, 0x1F2F, - 8), (0x1F38, 0x1F3F, - 8),
     (0x1F48, 0x1F4D, - 8), (0x1F59, 0x1F59, - 8), (0x1F5B, 0x1F5B, - 8), (0x1F5D, 0x1F5D, - 8),
     (0x1F5F, 0x1F5F, - 8), (0x1F68, 0x1F6F, - 8), (0x1F88, 0x1F8F, - 8), (0x1F98, 0x1F9F, - 8),
     (0x1FA8, 0x1FAF, - 8), (0x1FB8, 0x1FB9, - 8), (0x1FBA, 0x1FBB, - 74), (0x1FBC, 0x1FBC, - 9),
     (0x1FC8, 0x1FCB, - 86), (0x1FCC, 0x1FCC, - 9), (0x1FD8, 0x1FD9, - 8), (0x1FDA, 0x1FDB, - 100),
     (0x1FE8, 0x1FE9, - 8), (0x1FEA, 0x1FEB, - 112), (0x1FEC, 0x1FEC, - 7), (0x1FF8, 0x1FF9, - 128),
     (0x1FFA, 0x1FFB, - 126), (0x1FFC, 0x1FFC, - 9), (0x2126, 0x2126, - 7517), (0x212A, 0x212A, - 8383),
     (0x212B, 0x212B, - 8262), (0x2132, 0x2132, 28), (0x2160, 0x216F, 16), (0x2183, 0x2183, 1),
     (0x24B6, 0x24CF, 26), (0x2C00, 0x2C2E, 48), (0xFF21, 0xFF3A, 32)]"

definition kAstralLower :: "(nat \<times> nat \<times> int) list" where
  "kAstralLower = [
     (0x10400, 0x10427, 40), (0x104B0, 0x104D3, 40), (0x1D400, 0x1D419, 26), (0x1D43C, 0x1D44D, 26),
     (0x1D468, 0x1D481, 26), (0x1D4AE, 0x1D4B5, 26), (0x1D4D0, 0x1D4E9, 26), (0x1D50D, 0x1D514, 26),
     (0x1D56C, 0x1D585, 26), (0x1D5A0, 0x1D5B9, 26), (0x1D5D4, 0x1D5ED, 26), (0x1D608, 0x1D621, 26),
     (0x1D63C, 0x1D655, - 442), (0x1D670, 0x1D689, 26), (0x1D6A8, 0x1D6B8, 26), (0x1D6E2, 0x1D6F2, 26),
     (0x1D71C, 0x1D72C, 26), (0x1D756, 0x1D766, 26), (0x1D790, 0x1D7A0, - 90)]"

definition kUpper :: "(nat \<times> nat \<times> int) list" where
  "kUpper = [
     (0x00B5, 0x00B5, 743), (0x00E0, 0x00F6, - 32), (0x00F8, 0x00FE, - 32), (0x00FF, 0x00FF, 121),
     (0x017A, 0x017A, - 1), (0x017C, 0x017C, - 1), (0x017E, 0x017E, - 1), (0x017F, 0x017F, - 300),
     (0x0180, 0x0180, 195), (0x0183, 0x0183, - 1), (0x0185, 0x0185, - 1), (0x0188, 0x0188, - 1),
     (0x018C, 0x018C, - 1), (0x0192, 0x0192, - 1), (0x0195, 0x0195, 97), (0x0199, 0x0199, - 1),
     (0x019A, 0x019A, 163), (0x019E, 0x019E, 130), (0x01A1, 0x01A1, - 1), (0x01A3, 0x01A3, - 1),
     (0x01A5, 0x01A5, - 1), (0x01A8, 0x01A8, - 1), (0x01AD, 0x01AD, - 1), (0x01B0, 0x01B0, - 1),
     (0x01B4, 0x01B4, - 1), (0x01B6, 0x01B6, - 1), (0x01B9, 0x01B9, - 1), (0x01BD, 0x01BD, - 1),
     (0x01BF, 0x01BF, 56), (0x01C5, 0x01C5, - 1), (0x01C6, 0x01C6, - 2), (0x01C8, 0x01C8, - 1),
     (0x01C9, 0x01C9, - 2), (0x01CB, 0x01CB, - 1), (0x01CC, 0x01CC, - 2), (0x01CE, 0x01CE, - 1),
     (0x01DD, 0x01DD, - 79), (0x01F2, 0x01F2, - 1), (0x01F3, 0x01F3, - 2), (0x01F5, 0x01F5, - 1),
     (0x023C, 0x023C, - 1), (0x023F, 0x0240, 10815), (0x0242, 0x0242, - 1), (0x0247, 0x0247, - 1),
     (0x0249, 0x0249, - 1), (0x024B, 0x024B, - 1), (0x024D, 0x024D, - 1), (0x024F, 0x024F, - 1),
     (0x037B, 0x037D, 130), (0x03AC, 0x03AC, - 38), (0x03AD, 0x03AF, - 37), (0x03B1, 0x03C1, - 32),
     (0x03C2, 0x03C2, - 31), (0x03C3, 0x03CB, - 32), (0x03CC, 0x03CC, - 64), (0x03CD, 0x03CE, - 63),
     (0x03D0, 0x03D0, - 62), (0x03D1, 0x03D1, - 57), (0x03D5, 0x03D5, - 47), (0x03D6, 0x03D6, - 54),
     (0x03DD, 0x03DD, - 1), (0x03F0, 0x03F0, - 86), (0x03F1, 0x03F1, - 80), (0x03F5, 0x03F5, - 96),
     (0x0430, 0x044F, - 32), (0x0450, 0x045F, - 80), (0x0461, 0x0461, - 1), (0x0463, 0x0463, - 1),
     (0x0465, 0x0465, - 1), (0x0473, 0x0473, - 1), (0x0491, 0x0491, - 1), (0x0499, 0x0499, - 1),
     (0x049B, 0x049B, - 1), (0x0561, 0x0586, - 48), (0x10D0, 0x10FA, 3008), (0x10FD, 0x10FF, 3008),
     (0x13F8, 0x13FD, - 8), (0x214E, 0x214E, - 28), (0x2170, 0x217F, - 16), (0x2184, 0x2184, - 1),
     (0x24D0, 0x24E9, - 26), (0x2C30, 0x2C5E, - 48), (0x2D00, 0x2D25, - 7264), (0x2D27, 0x2D27, - 7264),
     (0x2D2D, 0x2D2D, - 7264), (0xFF41, 0xFF5A, - 32)]"

definition kAstralUpper :: "(nat \<times> nat \<times> int) list" where
  "kAstralUpper = [
     (0x10428, 0x1044F, - 40), (0x104D8, 0x104FB, - 40), (0x1D41A, 0x1D433, - 26),
     (0x1D456, 0x1D467, - 26), (0x1D482, 0x1D49B, - 26), (0x1D4C8, 0x1D4CF, - 26),
     (0x1D4EA, 0x1D503, - 26), (0x1D527, 0x1D52E, - 26), (0x1D586, 0x1D59F, - 26),
     (0x1D5BA, 0x1D5D3, - 26), (0x1D5EE, 0x1D607, - 26), (0x1D622, 0x1D63B, - 26), (0x1D68A, 0x1D6A3, 442),
     (0x1D6C2, 0x1D6D2, - 26), (0x1D6FC, 0x1D70C, - 26), (0x1D736, 0x1D746, - 26),
     (0x1D770, 0x1D780, - 26), (0x1D770, 0x1D756, - 26), (0x1D736, 0x1D790, - 90)]"

subsection \<open>The case conversions\<close>

text \<open>The loop of every search: the first entry whose upper end is not below \<open>c\<close>.\<close>

function range_bisect :: "(nat \<Rightarrow> nat) \<Rightarrow> nat \<Rightarrow> int \<Rightarrow> int \<Rightarrow> int" where
  "range_bisect y c l r =
     (if l < r then
        (let m = (l AND r) + drop_bit 1 (l XOR r) in
         if y (nat m) < c then range_bisect y c (m + 1) r else range_bisect y c l m)
      else l)"
  by pat_completeness auto
termination
  by (relation "measure (\<lambda>(y, c, l, r). nat (r - l))") (unfold average_floor, auto)

declare range_bisect.simps [simp del]

definition range_shift :: "(nat \<times> nat \<times> int) list \<Rightarrow> wint \<Rightarrow> wint" where
  "range_shift t c =
     (let n = int (length t); l = range_bisect (\<lambda>i. fst (snd (t ! i))) (unat c) 0 n in
      if l < n \<and> fst (t ! nat l) \<le> unat c \<and> unat c \<le> fst (snd (t ! nat l))
      then c + word_of_int (snd (snd (t ! nat l))) else c)"

definition towlower :: "wint \<Rightarrow> wint" where
  "towlower c =
     (if c < 0x80 then if 0x41 \<le> c \<and> c \<le> 0x5A then c + 32 else c
      else if c \<le> 0xFFFF then
        if 0x0100 \<le> c \<and> c \<le> 0x0176 \<or> 0x01DE \<le> c \<and> c \<le> 0x01EE \<or> 0x01F8 \<le> c \<and> c \<le> 0x021E \<or>
           0x0222 \<le> c \<and> c \<le> 0x0232 \<or> 0x1E00 \<le> c \<and> c \<le> 0x1EFF then
          if c = 0x0130 then c - 199
          else if c = 0x1E9E then c
          else c + (NOT c AND 1)
        else if 0x01CF \<le> c \<and> c \<le> 0x01DB then c + (c AND 1)
        else if 0x13A0 \<le> c \<and> c \<le> 0x13EF then c + 38864
        else range_shift kLower c
      else range_shift kAstralLower c)"

definition towupper :: "wint \<Rightarrow> wint" where
  "towupper c =
     (if c < 0x80 then if 0x61 \<le> c \<and> c \<le> 0x7A then c - 32 else c
      else if c \<le> 0xFFFF then
        if 0x0101 \<le> c \<and> c \<le> 0x0177 \<or> 0x01DF \<le> c \<and> c \<le> 0x01EF \<or> 0x01F8 \<le> c \<and> c \<le> 0x021E \<or>
           0x0222 \<le> c \<and> c \<le> 0x0232 \<or> 0x1E01 \<le> c \<and> c \<le> 0x1EFF then
          if c = 0x0131 then c + 232
          else if c = 0x1E9E then c
          else c - (c AND 1)
        else if 0x01D0 \<le> c \<and> c \<le> 0x01DC then c - (NOT c AND 1)
        else if 0xAB70 \<le> c \<and> c \<le> 0xABBF then c - 38864
        else range_shift kUpper c
      else range_shift kAstralUpper c)"

subsection \<open>The classes\<close>

definition iswupper_codes :: "nat list" where
  "iswupper_codes = [
     0x03D2, 0x03D3, 0x03D4, 0x2102, 0x2107, 0x210B, 0x210C, 0x210D, 0x2110, 0x2111, 0x2112, 0x2115,
     0x2119, 0x211A, 0x211B, 0x211C, 0x211D, 0x2124, 0x2128, 0x212C, 0x212D, 0x2130, 0x2131, 0x2133,
     0x213E, 0x213F, 0x2145, 0x1D434, 0x1D435, 0x1D436, 0x1D437, 0x1D438, 0x1D439, 0x1D43A, 0x1D43B,
     0x1D49C, 0x1D49E, 0x1D49F, 0x1D4A2, 0x1D4A5, 0x1D4A6, 0x1D4A9, 0x1D4AA, 0x1D4AB, 0x1D4AC, 0x1D504,
     0x1D505, 0x1D507, 0x1D508, 0x1D509, 0x1D50A, 0x1D516, 0x1D517, 0x1D518, 0x1D519, 0x1D51A, 0x1D51B,
     0x1D51C, 0x1D538, 0x1D539, 0x1D53B, 0x1D53C, 0x1D53D, 0x1D53E, 0x1D540, 0x1D541, 0x1D542, 0x1D543,
     0x1D544, 0x1D546, 0x1D54A, 0x1D54B, 0x1D54C, 0x1D54D, 0x1D54E, 0x1D54F, 0x1D550, 0x1D6E3, 0x1D6E4,
     0x1D6E5, 0x1D6E6, 0x1D6E7, 0x1D6E8, 0x1D6E9, 0x1D6EA, 0x1D6EB, 0x1D6EC, 0x1D6ED, 0x1D6EE, 0x1D6EF,
     0x1D6F0, 0x1D6F1, 0x1D6F2, 0x1D6F3, 0x1D6F4, 0x1D6F5, 0x1D6F6, 0x1D6F7, 0x1D6F8, 0x1D6F9, 0x1D6FA,
     0x1D72D, 0x1D72E, 0x1D72F, 0x1D730, 0x1D731, 0x1D732, 0x1D733, 0x1D734, 0x1D767, 0x1D768, 0x1D769,
     0x1D76A, 0x1D76B, 0x1D76C, 0x1D76D, 0x1D76E, 0x1D7A1, 0x1D7A2, 0x1D7A3, 0x1D7A4, 0x1D7A5, 0x1D7A6,
     0x1D7A7, 0x1D7A8, 0x1D7CA]"

definition iswlower_codes :: "nat list" where
  "iswlower_codes = [
     0x00DF, 0x0138, 0x0149, 0x018D, 0x019B, 0x01AA, 0x01AB, 0x01BA, 0x01BE, 0x01F0, 0x0221, 0x0234,
     0x0235, 0x0236, 0x0237, 0x0238, 0x0239, 0x0255, 0x0258, 0x025A, 0x025D, 0x025E, 0x025F, 0x0262,
     0x0264, 0x0267, 0x026D, 0x026E, 0x0270, 0x0273, 0x0274, 0x0276, 0x0277, 0x0278, 0x0279, 0x027A,
     0x027B, 0x027C, 0x027E, 0x027F, 0x0281, 0x0284, 0x0285, 0x0286, 0x028D, 0x028E, 0x028F, 0x0290,
     0x0291, 0x0293, 0x0295, 0x0296, 0x0297, 0x0298, 0x0299, 0x029A, 0x029B, 0x029C, 0x029F, 0x02A0,
     0x02A1, 0x02A2, 0x02A3, 0x02A4, 0x02A5, 0x02A6, 0x02A7, 0x02A8, 0x02A9, 0x02AA, 0x02AB, 0x02AC,
     0x02AD, 0x02AE, 0x02AF, 0x0390, 0x03B0, 0x03FC, 0x0560, 0x0587, 0x0588, 0x1D00, 0x1D01, 0x1D02,
     0x1D03, 0x1D04, 0x1D05, 0x1D06, 0x1D07, 0x1D08, 0x1D09, 0x1D0A, 0x1D0B, 0x1D0C, 0x1D0D, 0x1D0E,
     0x1D0F, 0x1D10, 0x1D11, 0x1D12, 0x1D13, 0x1D14, 0x1D15, 0x1D16, 0x1D17, 0x1D18, 0x1D19, 0x1D1A,
     0x1D1B, 0x1D1C, 0x1D1D, 0x1D1E, 0x1D1F, 0x1D20, 0x1D21, 0x1D22, 0x1D23, 0x1D24, 0x1D25, 0x1D26,
     0x1D27, 0x1D28, 0x1D29, 0x1D2A, 0x1D2B, 0x1D6B, 0x1D6C, 0x1D6D, 0x1D6E, 0x1D6F, 0x1D70, 0x1D71,
     0x1D72, 0x1D73, 0x1D74, 0x1D75, 0x1D76, 0x1D77, 0x1D7A, 0x1D7B, 0x1D7C, 0x1D7E, 0x1D7F, 0x1D80,
     0x1D81, 0x1D82, 0x1D83, 0x1D84, 0x1D85, 0x1D86, 0x1D87, 0x1D88, 0x1D89, 0x1D8A, 0x1D8B, 0x1D8C,
     0x1D8D, 0x1D8F, 0x1D90, 0x1D91, 0x1D92, 0x1D93, 0x1D94, 0x1D95, 0x1D96, 0x1D97, 0x1D98, 0x1D99,
     0x1D9A, 0x1E96, 0x1E97, 0x1E98, 0x1E99, 0x1E9A, 0x1E9C, 0x1E9D, 0x1E9F, 0x1F50, 0x1F52, 0x1F54,
     0x1F56, 0x1FB2, 0x1FB4, 0x1FB6, 0x1FB7, 0x1FC2, 0x1FC4, 0x1FC6, 0x1FC7, 0x1FD2, 0x1FD3, 0x1FD6,
     0x1FD7, 0x1FE2, 0x1FE3, 0x1FE4, 0x1FE6, 0x1FE7, 0x1FF2, 0x1FF4, 0x1FF6, 0x1FF7, 0x210A, 0x210E,
     0x210F, 0x2113, 0x212F, 0x2134, 0x2139, 0x213C, 0x213D, 0x2146, 0x2147, 0x2148, 0x2149, 0x2C71,
     0x2C74, 0x2C77, 0x2C78, 0x2C79, 0x2C7A, 0x2C7B, 0x2CE4, 0xA730, 0xA731, 0xA771, 0xA772, 0xA773,
     0xA774, 0xA775, 0xA776, 0xA777, 0xA778, 0xA78E, 0xA795, 0xA7AF, 0xA7FA, 0xAB30, 0xAB31, 0xAB32,
     0xAB33, 0xAB34, 0xAB35, 0xAB36, 0xAB37, 0xAB38, 0xAB39, 0xAB3A, 0xAB3B, 0xAB3C, 0xAB3D, 0xAB3E,
     0xAB3F, 0xAB40, 0xAB41, 0xAB42, 0xAB43, 0xAB44, 0xAB45, 0xAB46, 0xAB47, 0xAB48, 0xAB49, 0xAB4A,
     0xAB4B, 0xAB4C, 0xAB4D, 0xAB4E, 0xAB4F, 0xAB50, 0xAB51, 0xAB52, 0xAB54, 0xAB55, 0xAB56, 0xAB57,
     0xAB58, 0xAB59, 0xAB5A, 0xAB60, 0xAB61, 0xAB62, 0xAB63, 0xAB64, 0xAB65, 0xAB66, 0xAB67, 0xFB00,
     0xFB01, 0xFB02, 0xFB03, 0xFB04, 0xFB05, 0xFB06, 0xFB13, 0xFB14, 0xFB15, 0xFB16, 0xFB17, 0x1D44E,
     0x1D44F, 0x1D450, 0x1D451, 0x1D452, 0x1D453, 0x1D454, 0x1D45E, 0x1D45F, 0x1D460, 0x1D461, 0x1D462,
     0x1D463, 0x1D464, 0x1D465, 0x1D466, 0x1D467, 0x1D4B6, 0x1D4B7, 0x1D4B8, 0x1D4B9, 0x1D4BB, 0x1D4BD,
     0x1D4BE, 0x1D4BF, 0x1D4C0, 0x1D4C1, 0x1D4C2, 0x1D4C3, 0x1D4C5, 0x1D4C6, 0x1D4C7, 0x1D51E, 0x1D51F,
     0x1D520, 0x1D521, 0x1D522, 0x1D523, 0x1D524, 0x1D525, 0x1D526, 0x1D52F, 0x1D530, 0x1D531, 0x1D532,
     0x1D533, 0x1D534, 0x1D535, 0x1D536, 0x1D537, 0x1D552, 0x1D553, 0x1D554, 0x1D555, 0x1D556, 0x1D557,
     0x1D558, 0x1D559, 0x1D55A, 0x1D55B, 0x1D55C, 0x1D55D, 0x1D55E, 0x1D55F, 0x1D560, 0x1D561, 0x1D562,
     0x1D563, 0x1D564, 0x1D565, 0x1D566, 0x1D567, 0x1D568, 0x1D569, 0x1D56A, 0x1D56B, 0x1D656, 0x1D657,
     0x1D658, 0x1D659, 0x1D65A, 0x1D65B, 0x1D65C, 0x1D65D, 0x1D65E, 0x1D65F, 0x1D660, 0x1D661, 0x1D662,
     0x1D663, 0x1D664, 0x1D665, 0x1D666, 0x1D667, 0x1D668, 0x1D669, 0x1D66A, 0x1D66B, 0x1D66C, 0x1D66D,
     0x1D66E, 0x1D66F, 0x1D6DA, 0x1D6DC, 0x1D6DD, 0x1D6DE, 0x1D6DF, 0x1D6E0, 0x1D6E1, 0x1D70D, 0x1D70E,
     0x1D70F, 0x1D710, 0x1D711, 0x1D712, 0x1D713, 0x1D714, 0x1D716, 0x1D717, 0x1D718, 0x1D719, 0x1D71A,
     0x1D71B, 0x1D747, 0x1D748, 0x1D749, 0x1D74A, 0x1D74B, 0x1D74C, 0x1D74D, 0x1D74E, 0x1D750, 0x1D751,
     0x1D752, 0x1D753, 0x1D754, 0x1D755, 0x1D781, 0x1D782, 0x1D783, 0x1D784, 0x1D785, 0x1D786, 0x1D787,
     0x1D788, 0x1D78A, 0x1D78B, 0x1D78C, 0x1D78D, 0x1D78E, 0x1D78F, 0x1D7AA, 0x1D7AB, 0x1D7AC, 0x1D7AD,
     0x1D7AE, 0x1D7AF, 0x1D7B0, 0x1D7B1, 0x1D7B2, 0x1D7B3, 0x1D7B4, 0x1D7B5, 0x1D7B6, 0x1D7B7, 0x1D7B8,
     0x1D7B9, 0x1D7BA, 0x1D7BB, 0x1D7BC, 0x1D7BD, 0x1D7BE, 0x1D7BF, 0x1D7C0, 0x1D7C1, 0x1D7C2, 0x1D7C4,
     0x1D7C5, 0x1D7C6, 0x1D7C7, 0x1D7C8, 0x1D7C9, 0x1D7CB]"

definition iswpunct_ascii :: "nat list" where
  "iswpunct_ascii = [
     0x0021, 0x0022, 0x0023, 0x0024, 0x0025, 0x0026, 0x0027, 0x0028, 0x0029, 0x002A, 0x002B, 0x002C,
     0x002D, 0x002E, 0x002F, 0x003A, 0x003B, 0x003C, 0x003D, 0x003E, 0x003F, 0x0040, 0x005B, 0x005C,
     0x005D, 0x005E, 0x005F, 0x0060, 0x007B, 0x007C, 0x007D, 0x007E]"

definition iswpunct_codes :: "nat list" where
  "iswpunct_codes = [
     0x00A1, 0x00A7, 0x00AB, 0x00B6, 0x00B7, 0x00BB, 0x00BF, 0x037E, 0x0387, 0x055A, 0x055B, 0x055C,
     0x055D, 0x055E, 0x055F, 0x0589, 0x058A, 0x05BE, 0x05C0, 0x05C3, 0x05C6, 0x05F3, 0x05F4, 0x0609,
     0x060A, 0x060C, 0x060D, 0x061B, 0x061E, 0x061F, 0x066A, 0x066B, 0x066C, 0x066D, 0x06D4, 0x07F7,
     0x07F8, 0x07F9, 0x0964, 0x0965, 0x0970, 0x09FD, 0x0A76, 0x0AF0, 0x0C77, 0x0C84, 0x0DF4, 0x0E4F,
     0x0E5A, 0x0E5B, 0x0F04, 0x0F05, 0x0F06, 0x0F07, 0x0F08, 0x0F09, 0x0F0A, 0x0F0B, 0x0F0C, 0x0F0D,
     0x0F0E, 0x0F0F, 0x0F10, 0x0F11, 0x0F12, 0x0F14, 0x0F3A, 0x0F3B, 0x0F3C, 0x0F3D, 0x0F85, 0x0FD0,
     0x0FD1, 0x0FD2, 0x0FD3, 0x0FD4, 0x0FD9, 0x0FDA, 0x104A, 0x104B, 0x104C, 0x104D, 0x104E, 0x104F,
     0x10FB, 0x1360, 0x1361, 0x1362, 0x1363, 0x1364, 0x1365, 0x1366, 0x1367, 0x1368, 0x1400, 0x166E,
     0x169B, 0x169C, 0x16EB, 0x16EC, 0x16ED, 0x1735, 0x1736, 0x17D4, 0x17D5, 0x17D6, 0x17D8, 0x17D9,
     0x17DA, 0x1800, 0x1801, 0x1802, 0x1803, 0x1804, 0x1805, 0x1806, 0x1807, 0x1808, 0x1809, 0x180A,
     0x1944, 0x1945, 0x1A1E, 0x1A1F, 0x1C7E, 0x1C7F, 0x2010, 0x2011, 0x2012, 0x2013, 0x2014, 0x2015,
     0x2016, 0x2017, 0x2018, 0x2019, 0x201A, 0x201B, 0x201C, 0x201D, 0x201E, 0x201F, 0x2020, 0x2021,
     0x2022, 0x2023, 0x2024, 0x2025, 0x2026, 0x2027, 0x2030, 0x2031, 0x2032, 0x2033, 0x2034, 0x2035,
     0x2036, 0x2037, 0x2038, 0x2039, 0x203A, 0x203B, 0x203C, 0x203D, 0x203E, 0x203F, 0x2040, 0x2041,
     0x2042, 0x2043, 0x2045, 0x2046, 0x2047, 0x2048, 0x2049, 0x204A, 0x204B, 0x204C, 0x204D, 0x204E,
     0x204F, 0x2050, 0x2051, 0x2053, 0x2054, 0x2055, 0x2056, 0x2057, 0x2058, 0x2059, 0x205A, 0x205B,
     0x205C, 0x205D, 0x205E, 0x207D, 0x207E, 0x208D, 0x208E, 0x2308, 0x2309, 0x230A, 0x230B, 0x2329,
     0x232A, 0x2768, 0x2769, 0x276A, 0x276B, 0x276C, 0x276D, 0x276E, 0x276F, 0x2770, 0x2771, 0x2772,
     0x2773, 0x2774, 0x2775, 0x27C5, 0x27C6, 0x27E6, 0x27E7, 0x27E8, 0x27E9, 0x27EA, 0x27EB, 0x27EC,
     0x27ED, 0x27EE, 0x27EF, 0x2983, 0x2984, 0x2985, 0x2986, 0x2987, 0x2988, 0x2989, 0x298A, 0x298B,
     0x298C, 0x298D, 0x298E, 0x298F, 0x2990, 0x2991, 0x2992, 0x2993, 0x2994, 0x2997, 0x2998, 0x29D8,
     0x29D9, 0x29DA, 0x29DB, 0x29FC, 0x29FD, 0x2D70, 0x2E0E, 0x2E0F, 0x2E10, 0x2E11, 0x2E12, 0x2E13,
     0x2E14, 0x2E15, 0x2E16, 0x2E17, 0x2E19, 0x2E1A, 0x2E1B, 0x2E1E, 0x2E1F, 0x2E2A, 0x2E2B, 0x2E2C,
     0x2E2D, 0x2E2E, 0x2E30, 0x2E31, 0x2E32, 0x2E33, 0x2E34, 0x2E35, 0x2E36, 0x2E37, 0x2E38, 0x2E39,
     0x2E3A, 0x2E3B, 0x2E3C, 0x2E3D, 0x2E3E, 0x2E3F, 0x2E40, 0x2E41, 0x2E42, 0x2E43, 0x2E44, 0x2E45,
     0x2E46, 0x2E47, 0x2E48, 0x2E49, 0x2E4A, 0x2E4B, 0x2E4C, 0x2E4D, 0x2E4E, 0x2E4F, 0x3001, 0x3002,
     0x3003, 0x3008, 0x3009, 0x300A, 0x300B, 0x300C, 0x300D, 0x300E, 0x300F, 0x3010, 0x3011, 0x3014,
     0x3015, 0x3016, 0x3017, 0x3018, 0x3019, 0x301A, 0x301B, 0x301C, 0x301D, 0x301E, 0x301F, 0x3030,
     0x303D, 0x30A0, 0x30FB, 0xA4FE, 0xA4FF, 0xA60D, 0xA60E, 0xA60F, 0xA67E, 0xA874, 0xA875, 0xA876,
     0xA877, 0xA8CE, 0xA8CF, 0xA8F8, 0xA8F9, 0xA8FA, 0xA8FC, 0xA9C1, 0xA9C2, 0xA9C3, 0xA9C4, 0xA9C5,
     0xA9C6, 0xA9C7, 0xA9C8, 0xA9C9, 0xA9CA, 0xA9CB, 0xA9CC, 0xA9CD, 0xA9DE, 0xA9DF, 0xAA5C, 0xAA5D,
     0xAA5E, 0xAA5F, 0xAADE, 0xAADF, 0xAAF0, 0xAAF1, 0xABEB, 0xFE10, 0xFE11, 0xFE12, 0xFE13, 0xFE14,
     0xFE15, 0xFE16, 0xFE17, 0xFE18, 0xFE19, 0xFE30, 0xFE31, 0xFE32, 0xFE33, 0xFE34, 0xFE35, 0xFE36,
     0xFE37, 0xFE38, 0xFE39, 0xFE3A, 0xFE3B, 0xFE3C, 0xFE3D, 0xFE3E, 0xFE3F, 0xFE40, 0xFE41, 0xFE42,
     0xFE43, 0xFE44, 0xFE45, 0xFE46, 0xFE47, 0xFE48, 0xFE49, 0xFE4A, 0xFE4B, 0xFE4C, 0xFE4D, 0xFE4E,
     0xFE4F, 0xFE50, 0xFE51, 0xFE52, 0xFE54, 0xFE55, 0xFE56, 0xFE57, 0xFE58, 0xFE59, 0xFE5A, 0xFE5B,
     0xFE5C, 0xFE5D, 0xFE5E, 0xFE5F, 0xFE60, 0xFE61, 0xFE63, 0xFE68, 0xFE6A, 0xFE6B, 0xFF01, 0xFF02,
     0xFF03, 0xFF05, 0xFF06, 0xFF07, 0xFF08, 0xFF09, 0xFF0A, 0xFF0C, 0xFF0D, 0xFF0E, 0xFF0F, 0xFF1A,
     0xFF1B, 0xFF1F, 0xFF20, 0xFF3B, 0xFF3C, 0xFF3D, 0xFF3F, 0xFF5B, 0xFF5D, 0xFF5F, 0xFF60, 0xFF61,
     0xFF62, 0xFF63, 0xFF64, 0xFF65]"

definition iswspace_codes :: "nat list" where
  "iswspace_codes = [
     0x0009, 0x000A, 0x000C, 0x000B, 0x000D, 0x0020, 0x2000, 0x2001, 0x2002, 0x2003, 0x2004, 0x2005,
     0x2006, 0x2007, 0x2008, 0x2009, 0x200A, 0x2028, 0x2029, 0x205F, 0x3000]"

definition iswupper :: "wint \<Rightarrow> bool" where
  "iswupper c =
     (if c < 0x80 then 0x41 \<le> c \<and> c \<le> 0x5A
      else if towlower c \<noteq> c then True
      else unat c \<in> set iswupper_codes)"

definition iswlower :: "wint \<Rightarrow> bool" where
  "iswlower c =
     (if c < 0x80 then 0x61 \<le> c \<and> c \<le> 0x7A
      else if towupper c \<noteq> c then True
      else unat c \<in> set iswlower_codes)"

definition iswpunct :: "wint \<Rightarrow> bool" where
  "iswpunct c = (if c < 0xA0 then unat c \<in> set iswpunct_ascii else unat c \<in> set iswpunct_codes)"

definition iswspace :: "wint \<Rightarrow> bool" where
  "iswspace c = (unat c \<in> set iswspace_codes)"

definition iswblank :: "wint \<Rightarrow> bool" where
  "iswblank c = (c = 0x20 \<or> c = 0x09)"

definition iswcntrl :: "wint \<Rightarrow> bool" where
  "iswcntrl c = (0x00 \<le> c \<and> c \<le> 0x1F \<or> 0x7F \<le> c \<and> c \<le> 0x9F)"

definition iswdigit :: "wint \<Rightarrow> bool" where
  "iswdigit c = (0x30 \<le> c \<and> c \<le> 0x39)"

definition iswprint :: "wint \<Rightarrow> bool" where
  "iswprint c = (\<not> (0x00 \<le> c \<and> c \<le> 0x1F \<or> 0x7F \<le> c \<and> c \<le> 0x9F \<or>
                    0xFFF9 \<le> c \<and> c \<le> 0xFFFB \<or> c = 0x2028 \<or> c = 0x2029))"

definition iswgraph :: "wint \<Rightarrow> bool" where
  "iswgraph c = (iswprint c \<and> \<not> iswspace c)"

definition iswxdigit :: "wint \<Rightarrow> bool" where
  "iswxdigit c = (0x30 \<le> c \<and> c \<le> 0x39 \<or> 0x41 \<le> c \<and> c \<le> 0x46 \<or> 0x61 \<le> c \<and> c \<le> 0x66)"

definition iswalpha :: "wint \<Rightarrow> bool" where
  "iswalpha c = (iswupper c \<or> iswlower c)"

definition iswalnum :: "wint \<Rightarrow> bool" where
  "iswalnum c = (iswdigit c \<or> iswalpha c)"

text \<open>The names of the classes, in eight bytes each, and the functions they stand for.\<close>

definition kWcTypeNames :: "string list" where
  "kWcTypeNames = [''alnum'', ''alpha'', ''blank'', ''cntrl'', ''digit'', ''graph'', ''lower'', ''print'',
     ''punct'', ''space'', ''upper'', ''xdigit'']"

definition kWcTypeFuncs :: "(wint \<Rightarrow> bool) list" where
  "kWcTypeFuncs = [iswalnum, iswalpha, iswblank, iswcntrl, iswdigit, iswgraph, iswlower, iswprint,
     iswpunct, iswspace, iswupper, iswxdigit]"

definition pad_name :: "bytes \<Rightarrow> bytes" where
  "pad_name s = take 8 (s @ replicate 8 0)"

primrec wctype_loop :: "bytes \<Rightarrow> nat \<Rightarrow> string list \<Rightarrow> nat" where
  "wctype_loop b i [] = 0"
| "wctype_loop b i (s # ss) = (if b = pad_name (str s) then i + 1 else wctype_loop b (i + 1) ss)"

definition wctype :: "bytes \<Rightarrow> nat" where
  "wctype s = (if drop 8 s = [] then wctype_loop (pad_name s) 0 kWcTypeNames else 0)"

definition iswctype :: "wint \<Rightarrow> nat \<Rightarrow> bool" where
  "iswctype c t = (if 1 \<le> t \<and> t \<le> length kWcTypeFuncs then (kWcTypeFuncs ! (t - 1)) c else False)"

subsection \<open>Separators\<close>

definition kCodes :: "(nat \<times> nat) list" where
  "kCodes = [
     (0x00AA, 0x00AA), (0x00B2, 0x00B3), (0x00B5, 0x00B5), (0x00B9, 0x00BA), (0x00BC, 0x00BE),
     (0x00C0, 0x00D6), (0x00D8, 0x00F6), (0x0100, 0x02C1), (0x02C6, 0x02D1), (0x02E0, 0x02E4),
     (0x02EC, 0x02EC), (0x02EE, 0x02EE), (0x0370, 0x0374), (0x0376, 0x0377), (0x037A, 0x037D),
     (0x037F, 0x037F), (0x0386, 0x0386), (0x0388, 0x038A), (0x038C, 0x038C), (0x038E, 0x03A1),
     (0x03A3, 0x03F5), (0x03F7, 0x0481), (0x048A, 0x052F), (0x0531, 0x0556), (0x0560, 0x0588),
     (0x05D0, 0x05EA), (0x0620, 0x064A), (0x0660, 0x0669), (0x0671, 0x06D3), (0x06EE, 0x06FC),
     (0x0712, 0x072F), (0x074D, 0x07A5), (0x07C0, 0x07EA), (0x0800, 0x0815), (0x0840, 0x0858),
     (0x0904, 0x0939), (0x0993, 0x09A8), (0x09E6, 0x09F1), (0x0A13, 0x0A28), (0x0A66, 0x0A6F),
     (0x0A93, 0x0AA8), (0x0B13, 0x0B28), (0x0C92, 0x0CA8), (0x0CAA, 0x0CB3), (0x0CE6, 0x0CEF),
     (0x0D12, 0x0D3A), (0x0D85, 0x0D96), (0x0D9A, 0x0DB1), (0x0DE6, 0x0DEF), (0x0E01, 0x0E30),
     (0x0E8C, 0x0EA3), (0x0F20, 0x0F33), (0x0F49, 0x0F6C), (0x109E, 0x10C5), (0x10D0, 0x10FA),
     (0x10FC, 0x1248), (0x13A0, 0x13F5), (0x1401, 0x166D), (0x16A0, 0x16EA), (0x1700, 0x170C),
     (0x1780, 0x17B3), (0x1820, 0x1878), (0x1A00, 0x1A16), (0x1A20, 0x1A54), (0x1A80, 0x1A89),
     (0x1A90, 0x1A99), (0x1B05, 0x1B33), (0x1B50, 0x1B59), (0x1B83, 0x1BA0), (0x1BAE, 0x1BE5),
     (0x1C90, 0x1CBA), (0x1CBD, 0x1CBF), (0x1E00, 0x1F15), (0x2070, 0x2071), (0x2074, 0x2079),
     (0x207F, 0x2089), (0x2090, 0x209C), (0x2100, 0x2117), (0x2119, 0x213F), (0x2145, 0x214A),
     (0x214C, 0x218B), (0x21AF, 0x21CD), (0x21D5, 0x21F3), (0x230C, 0x231F), (0x232B, 0x237B),
     (0x237D, 0x239A), (0x23B4, 0x23DB), (0x23E2, 0x2426), (0x2460, 0x25B6), (0x25C2, 0x25F7),
     (0x2600, 0x266E), (0x2670, 0x2767), (0x2776, 0x27BF), (0x2800, 0x28FF), (0x2C00, 0x2C2E),
     (0x2C30, 0x2C5E), (0x2C60, 0x2CE4), (0x2D00, 0x2D25), (0x2D30, 0x2D67), (0x2D80, 0x2D96),
     (0x2E2F, 0x2E2F), (0x3005, 0x3007), (0x3021, 0x3029), (0x3031, 0x3035), (0x3038, 0x303C),
     (0x3041, 0x3096), (0x30A1, 0x30FA), (0x3105, 0x312F), (0x3131, 0x318E), (0x31A0, 0x31BA),
     (0x31F0, 0x31FF), (0x3220, 0x3229), (0x3248, 0x324F), (0x3251, 0x325F), (0x3280, 0x3289),
     (0x32B1, 0x32BF), (0x3400, 0x4DB5), (0x4DC0, 0x9FEF), (0xA000, 0xA48C), (0xA4D0, 0xA4FD),
     (0xA500, 0xA60C), (0xA610, 0xA62B), (0xA6A0, 0xA6EF), (0xA80C, 0xA822), (0xA840, 0xA873),
     (0xA882, 0xA8B3), (0xA8D0, 0xA8D9), (0xA900, 0xA925), (0xA930, 0xA946), (0xA960, 0xA97C),
     (0xA984, 0xA9B2), (0xA9CF, 0xA9D9), (0xAA00, 0xAA28), (0xAA50, 0xAA59), (0xABF0, 0xABF9),
     (0xAC00, 0xD7A3), (0xF900, 0xFA6D), (0xFA70, 0xFAD9), (0xFB1F, 0xFB28), (0xFB2A, 0xFB36),
     (0xFB46, 0xFBB1), (0xFBD3, 0xFD3D), (0xFE76, 0xFEFC), (0xFF10, 0xFF19), (0xFF21, 0xFF3A),
     (0xFF41, 0xFF5A), (0xFF66, 0xFFBE), (0xFFC2, 0xFFC7), (0xFFCA, 0xFFCF), (0xFFD2, 0xFFD7),
     (0xFFDA, 0xFFDC)]"

definition kAstralCodes :: "(nat \<times> nat) list" where
  "kAstralCodes = [
     (0x10107, 0x10133), (0x10140, 0x10178), (0x1018A, 0x1018B), (0x10280, 0x1029C), (0x102A0, 0x102D0),
     (0x102E1, 0x102FB), (0x10300, 0x10323), (0x1032D, 0x1034A), (0x10350, 0x10375), (0x10380, 0x1039D),
     (0x103A0, 0x103C3), (0x103C8, 0x103CF), (0x103D1, 0x103D5), (0x10400, 0x1049D), (0x104B0, 0x104D3),
     (0x104D8, 0x104FB), (0x10500, 0x10527), (0x10530, 0x10563), (0x10600, 0x10736), (0x10800, 0x10805),
     (0x1080A, 0x10835), (0x10837, 0x10838), (0x1083F, 0x1089E), (0x108E0, 0x108F2), (0x108F4, 0x108F5),
     (0x108FB, 0x1091B), (0x10920, 0x10939), (0x10980, 0x109B7), (0x109BC, 0x109CF), (0x109D2, 0x10A00),
     (0x10A10, 0x10A13), (0x10A15, 0x10A17), (0x10A19, 0x10A35), (0x10A40, 0x10A48), (0x10A60, 0x10A7E),
     (0x10A80, 0x10A9F), (0x10AC0, 0x10AC7), (0x10AC9, 0x10AE4), (0x10AEB, 0x10AEF), (0x10B00, 0x10B35),
     (0x10B40, 0x10B55), (0x10B58, 0x10B72), (0x10B78, 0x10B91), (0x10C00, 0x10C48), (0x10C80, 0x10CB2),
     (0x10CC0, 0x10CF2), (0x10CFA, 0x10D23), (0x10D30, 0x10D39), (0x10E60, 0x10E7E), (0x10F00, 0x10F27),
     (0x10F30, 0x10F45), (0x10F51, 0x10F54), (0x10FE0, 0x10FF6), (0x11003, 0x11037), (0x11052, 0x1106F),
     (0x11083, 0x110AF), (0x110D0, 0x110E8), (0x110F0, 0x110F9), (0x11103, 0x11126), (0x11136, 0x1113F),
     (0x11144, 0x11144), (0x11150, 0x11172), (0x11176, 0x11176), (0x11183, 0x111B2), (0x111C1, 0x111C4),
     (0x111D0, 0x111DA), (0x111DC, 0x111DC), (0x111E1, 0x111F4), (0x11200, 0x11211), (0x11213, 0x1122B),
     (0x11280, 0x11286), (0x11288, 0x11288), (0x1128A, 0x1128D), (0x1128F, 0x1129D), (0x1129F, 0x112A8),
     (0x112B0, 0x112DE), (0x112F0, 0x112F9), (0x11305, 0x1130C), (0x1130F, 0x11310), (0x11313, 0x11328),
     (0x1132A, 0x11330), (0x11332, 0x11333), (0x11335, 0x11339), (0x1133D, 0x1133D), (0x11350, 0x11350),
     (0x1135D, 0x11361), (0x11400, 0x11434), (0x11447, 0x1144A), (0x11450, 0x11459), (0x1145F, 0x1145F),
     (0x11480, 0x114AF), (0x114C4, 0x114C5), (0x114C7, 0x114C7), (0x114D0, 0x114D9), (0x11580, 0x115AE),
     (0x115D8, 0x115DB), (0x11600, 0x1162F), (0x11644, 0x11644), (0x11650, 0x11659), (0x11680, 0x116AA),
     (0x116B8, 0x116B8), (0x116C0, 0x116C9), (0x11700, 0x1171A), (0x11730, 0x1173B), (0x11800, 0x1182B),
     (0x118A0, 0x118F2), (0x118FF, 0x118FF), (0x119A0, 0x119A7), (0x119AA, 0x119D0), (0x119E1, 0x119E1),
     (0x119E3, 0x119E3), (0x11A00, 0x11A00), (0x11A0B, 0x11A32), (0x11A3A, 0x11A3A), (0x11A50, 0x11A50),
     (0x11A5C, 0x11A89), (0x11A9D, 0x11A9D), (0x11AC0, 0x11AF8), (0x11C00, 0x11C08), (0x11C0A, 0x11C2E),
     (0x11C40, 0x11C40), (0x11C50, 0x11C6C), (0x11C72, 0x11C8F), (0x11D00, 0x11D06), (0x11D08, 0x11D09),
     (0x11D0B, 0x11D30), (0x11D46, 0x11D46), (0x11D50, 0x11D59), (0x11D60, 0x11D65), (0x11D67, 0x11D68),
     (0x11D6A, 0x11D89), (0x11D98, 0x11D98), (0x11DA0, 0x11DA9), (0x11EE0, 0x11EF2), (0x11FC0, 0x11FD4),
     (0x12000, 0x12399), (0x12400, 0x1246E), (0x12480, 0x12543), (0x13000, 0x1342E), (0x14400, 0x14646),
     (0x16800, 0x16A38), (0x16A40, 0x16A5E), (0x16A60, 0x16A69), (0x16AD0, 0x16AED), (0x16B00, 0x16B2F),
     (0x16B40, 0x16B43), (0x16B50, 0x16B59), (0x16B5B, 0x16B61), (0x16B63, 0x16B77), (0x16B7D, 0x16B8F),
     (0x16E40, 0x16E96), (0x16F00, 0x16F4A), (0x16F50, 0x16F50), (0x16F93, 0x16F9F), (0x16FE0, 0x16FE1),
     (0x16FE3, 0x16FE3), (0x17000, 0x187F7), (0x18800, 0x18AF2), (0x1B000, 0x1B11E), (0x1B150, 0x1B152),
     (0x1B164, 0x1B167), (0x1B170, 0x1B2FB), (0x1BC00, 0x1BC6A), (0x1BC70, 0x1BC7C), (0x1BC80, 0x1BC88),
     (0x1BC90, 0x1BC99), (0x1D2E0, 0x1D2F3), (0x1D360, 0x1D378), (0x1D400, 0x1D454), (0x1D456, 0x1D49C),
     (0x1D49E, 0x1D49F), (0x1D4A2, 0x1D4A2), (0x1D4A5, 0x1D4A6), (0x1D4A9, 0x1D4AC), (0x1D4AE, 0x1D4B9),
     (0x1D4BB, 0x1D4BB), (0x1D4BD, 0x1D4C3), (0x1D4C5, 0x1D505), (0x1D507, 0x1D50A), (0x1D50D, 0x1D514),
     (0x1D516, 0x1D51C), (0x1D51E, 0x1D539), (0x1D53B, 0x1D53E), (0x1D540, 0x1D544), (0x1D546, 0x1D546),
     (0x1D54A, 0x1D550), (0x1D552, 0x1D6A5), (0x1D6A8, 0x1D6C0), (0x1D6C2, 0x1D6DA), (0x1D6DC, 0x1D6FA),
     (0x1D6FC, 0x1D714), (0x1D716, 0x1D734), (0x1D736, 0x1D74E), (0x1D750, 0x1D76E), (0x1D770, 0x1D788),
     (0x1D78A, 0x1D7A8), (0x1D7AA, 0x1D7C2), (0x1D7C4, 0x1D7CB), (0x1D7CE, 0x1D9FF), (0x1F100, 0x1F10C),
     (0x20000, 0x2A6D6), (0x2A700, 0x2B734), (0x2B740, 0x2B81D), (0x2B820, 0x2CEA1), (0x2CEB0, 0x2EBE0),
     (0x2F800, 0x2FA1D)]"

definition range_mem :: "(nat \<times> nat) list \<Rightarrow> wint \<Rightarrow> bool" where
  "range_mem t c =
     (let n = int (length t); l = range_bisect (\<lambda>i. snd (t ! i)) (unat c) 0 n in
      l < n \<and> fst (t ! nat l) \<le> unat c \<and> unat c \<le> snd (t ! nat l))"

definition iswseparator :: "wint \<Rightarrow> bool" where
  "iswseparator c =
     (if c < 0x80 then \<not> (0x30 \<le> c \<and> c \<le> 0x39 \<or> 0x41 \<le> c \<and> c \<le> 0x5A \<or> 0x61 \<le> c \<and> c \<le> 0x7A)
      else if c \<le> 0xFFFF then \<not> range_mem kCodes c
      else \<not> range_mem kAstralCodes c)"


subsection \<open>The searches\<close>

text \<open>A table of ranges in increasing order, as the loop sees it.\<close>

locale range_table =
  fixes n :: nat and lo hi :: "nat \<Rightarrow> nat"
  assumes range: "i < n \<Longrightarrow> lo i \<le> hi i"
    and gap: "i < j \<Longrightarrow> j < n \<Longrightarrow> hi i < lo j"
begin

lemma hi_mono: "i \<le> j \<Longrightarrow> j < n \<Longrightarrow> hi i \<le> hi j"
  using gap [of i j] range [of j] by (cases "i = j") auto

lemma bisect_bound:
  "0 \<le> l \<Longrightarrow> l \<le> r \<Longrightarrow> r \<le> int n \<Longrightarrow> (\<And>i. int i < l \<Longrightarrow> hi i < c) \<Longrightarrow> (\<And>i. r \<le> int i \<Longrightarrow> i < n \<Longrightarrow> c \<le> hi i) \<Longrightarrow>
   (let k = range_bisect hi c l r in
    0 \<le> k \<and> k \<le> int n \<and> (\<forall>i. int i < k \<longrightarrow> hi i < c) \<and> (\<forall>i < n. k \<le> int i \<longrightarrow> c \<le> hi i))"
proof (induction "nat (r - l)" arbitrary: l r rule: less_induct)
  case less
  define m where "m = (l + r) div 2"
  show ?case
  proof (cases "l < r")
    case True
    then have m: "l \<le> m" "m < r" by (auto simp: m_def)
    have b: "range_bisect hi c l r = (if hi (nat m) < c then range_bisect hi c (m + 1) r else range_bisect hi c l m)"
      using True unfolding range_bisect.simps [of hi c l r] average_floor m_def [symmetric] Let_def by (simp only: if_True)
    show ?thesis
    proof (cases "hi (nat m) < c")
      case True
      have "hi i < c" if "int i < m + 1" for i
        using True hi_mono [of i "nat m"] that m less.prems by fastforce
      then show ?thesis unfolding b using True m less.prems by (simp only: if_True) (intro less.hyps; auto)
    next
      case False
      have "c \<le> hi i" if "m \<le> int i" "i < n" for i
        using False hi_mono [of "nat m" i] that m less.prems by fastforce
      then show ?thesis unfolding b using False m less.prems by (simp only: if_False) (intro less.hyps; auto)
    qed
  qed (use less.prems in \<open>auto simp: range_bisect.simps Let_def\<close>)
qed

lemma bisect_hit:
  assumes "i < n" "lo i \<le> c" "c \<le> hi i"
  shows "range_bisect hi c 0 (int n) = int i"
proof -
  define k where "k = range_bisect hi c 0 (int n)"
  have k: "0 \<le> k" "k \<le> int n" "\<And>j. int j < k \<Longrightarrow> hi j < c" "\<And>j. j < n \<Longrightarrow> k \<le> int j \<Longrightarrow> c \<le> hi j"
    using bisect_bound [of 0 "int n" c] by (auto simp: k_def Let_def)
  have "\<not> int i < k" using k(3) [of i] assms(3) by auto
  moreover have "\<not> k < int i"
  proof
    assume "k < int i"
    then have "hi (nat k) < lo i" "c \<le> hi (nat k)" using k(1) k(4) [of "nat k"] gap [of "nat k" i] assms(1) by auto
    with assms(2) show False by simp
  qed
  ultimately show ?thesis by (simp add: k_def)
qed

lemma bisect_miss:
  assumes "\<And>i. i < n \<Longrightarrow> \<not> (lo i \<le> c \<and> c \<le> hi i)"
  shows "\<not> (range_bisect hi c 0 (int n) < int n \<and> lo (nat (range_bisect hi c 0 (int n))) \<le> c \<and>
            c \<le> hi (nat (range_bisect hi c 0 (int n))))"
  using assms bisect_bound [of 0 "int n" c] by (auto simp: Let_def)

end

text \<open>The order of a table, as a computation.\<close>

fun ranges_ok :: "nat \<Rightarrow> (nat \<times> nat \<times> int) list \<Rightarrow> bool" where
  "ranges_ok k [] = True"
| "ranges_ok k ((x, y, d) # t) =
     (k \<le> x \<and> x \<le> y \<and> 0 \<le> int x + d \<and> int y + d < 4294967296 \<and> ranges_ok (Suc y) t)"

lemma ranges_ok_nth:
  "ranges_ok k t \<Longrightarrow> i < length t \<Longrightarrow>
   k \<le> fst (t ! i) \<and> fst (t ! i) \<le> fst (snd (t ! i)) \<and>
   0 \<le> int (fst (t ! i)) + snd (snd (t ! i)) \<and> int (fst (snd (t ! i))) + snd (snd (t ! i)) < 4294967296"
proof (induction k t arbitrary: i rule: ranges_ok.induct)
  case (2 k x y d t)
  then show ?case by (cases i) fastforce+
qed simp

lemma ranges_ok_gap: "ranges_ok k t \<Longrightarrow> i < j \<Longrightarrow> j < length t \<Longrightarrow> fst (snd (t ! i)) < fst (t ! j)"
proof (induction k t arbitrary: i j rule: ranges_ok.induct)
  case (2 k x y d t)
  obtain j' where j: "j = Suc j'" using 2(3) by (cases j) auto
  show ?case
  proof (cases i)
    case 0
    then show ?thesis using 2 j ranges_ok_nth [of "Suc y" t j'] by simp
  next
    case (Suc i')
    then show ?thesis using 2 j by simp
  qed
qed simp

lemma kLower_ok: "ranges_ok 0 kLower"
  by (simp add: kLower_def)

lemma kAstralLower_ok: "ranges_ok 0 kAstralLower"
  by (simp add: kAstralLower_def)

lemma kUpper_ok: "ranges_ok 0 kUpper"
  by (simp add: kUpper_def)

definition flat_ranges :: "(nat \<times> nat) list \<Rightarrow> (nat \<times> nat \<times> int) list" where
  "flat_ranges = map (\<lambda>(x, y). (x, y, 0))"

lemma kCodes_ok: "ranges_ok 0 (flat_ranges kCodes)"
  by (simp add: kCodes_def flat_ranges_def)

lemma kAstralCodes_ok: "ranges_ok 0 (flat_ranges kAstralCodes)"
  by (simp add: kAstralCodes_def flat_ranges_def)

text \<open>The linear searches.\<close>

definition range_delta :: "(nat \<times> nat \<times> int) list \<Rightarrow> nat \<Rightarrow> int" where
  "range_delta t n = (case find (\<lambda>(x, y, d). x \<le> n \<and> n \<le> y) t of Some (x, y, d) \<Rightarrow> d | None \<Rightarrow> 0)"

lemma range_delta_cases:
  obtains i where "i < length t" "fst (t ! i) \<le> n" "n \<le> fst (snd (t ! i))" "range_delta t n = snd (snd (t ! i))"
  | "\<And>i. i < length t \<Longrightarrow> \<not> (fst (t ! i) \<le> n \<and> n \<le> fst (snd (t ! i)))" "range_delta t n = 0"
proof (cases "find (\<lambda>(x, y, d). x \<le> n \<and> n \<le> y) t")
  case None
  then have "\<forall>e \<in> set t. \<not> (fst e \<le> n \<and> n \<le> fst (snd e))" by (fastforce simp: find_None_iff)
  with None show ?thesis by (intro that(2)) (auto simp: range_delta_def)
next
  case (Some e)
  then obtain i where "i < length t" "t ! i = e" "fst e \<le> n \<and> n \<le> fst (snd e)"
    by (auto simp: find_Some_iff case_prod_beta)
  with Some show ?thesis by (intro that(1)) (auto simp: range_delta_def case_prod_beta)
qed

lemma uint_add_delta:
  assumes "0 \<le> uint c + d" "uint c + d < 4294967296"
  shows "uint (c + word_of_int d :: wint) = uint c + d"
  using assms by (simp add: uint_word_ariths uint_word_of_int mod_add_right_eq)

text \<open>What the sources' tables promise, and what both uses of the loop give on such a table.\<close>

locale shift_table =
  fixes t :: "(nat \<times> nat \<times> int) list"
  assumes ok: "ranges_ok 0 t"

sublocale shift_table \<subseteq> range_table "length t" "\<lambda>i. fst (t ! i)" "\<lambda>i. fst (snd (t ! i))"
  by unfold_locales (use ok in \<open>auto dest: ranges_ok_nth ranges_ok_gap\<close>)

context shift_table
begin

lemma shift_delta: "uint (range_shift t c) = uint c + range_delta t (unat c)"
proof (cases rule: range_delta_cases [of t "unat c"])
  case (1 i)
  have "0 \<le> int (unat c) + snd (snd (t ! i))" "int (unat c) + snd (snd (t ! i)) < 4294967296"
    using ranges_ok_nth [OF ok 1(1)] 1(2,3) by linarith+
  then show ?thesis
    using 1 bisect_hit [OF 1(1-3)] by (simp add: range_shift_def Let_def uint_add_delta)
next
  case 2
  then show ?thesis using bisect_miss [OF 2(1)] by (auto simp: range_shift_def Let_def)
qed

end

interpretation lower_table: shift_table kLower
  by unfold_locales (rule kLower_ok)

interpretation astral_lower_table: shift_table kAstralLower
  by unfold_locales (rule kAstralLower_ok)

interpretation upper_table: shift_table kUpper
  by unfold_locales (rule kUpper_ok)

subsection \<open>The conversions are stable\<close>

text \<open>\<open>misses a b t\<close>: the range from \<open>a\<close> to \<open>b\<close> lies in a gap of \<open>t\<close>.\<close>

fun misses :: "nat \<Rightarrow> nat \<Rightarrow> (nat \<times> nat \<times> int) list \<Rightarrow> bool" where
  "misses a b [] = True"
| "misses a b ((x, y, d) # t) = (if y < a then misses a b t else b < x)"

lemma misses_mem:
  "misses a b t \<Longrightarrow> ranges_ok k t \<Longrightarrow> a \<le> n \<Longrightarrow> n \<le> b \<Longrightarrow> (x, y, d) \<in> set t \<Longrightarrow> n < x \<or> y < n"
proof (induction a b t arbitrary: k rule: misses.induct)
  case (2 a b x' y' d' t)
  have "Suc y' \<le> x" if "(x, y, d) \<in> set t"
    using that 2(3) ranges_ok_nth [of "Suc y'" t] by (force simp: in_set_conv_nth)
  then show ?case using 2 by (fastforce split: if_splits)
qed simp

lemma misses_delta:
  "misses a b t \<Longrightarrow> ranges_ok k t \<Longrightarrow> a \<le> n \<Longrightarrow> n \<le> b \<Longrightarrow> range_delta t n = 0"
proof (cases rule: range_delta_cases [of t n])
  case (1 i)
  assume "misses a b t" "ranges_ok k t" "a \<le> n" "n \<le> b"
  then show ?thesis using misses_mem [of a b t k n "fst (t ! i)" "fst (snd (t ! i))" "snd (snd (t ! i))"] 1 by simp
qed

definition code_ranges :: "nat list \<Rightarrow> (nat \<times> nat \<times> int) list" where
  "code_ranges = map (\<lambda>u. (u, u, 0))"

lemma code_ranges_mem: "(u, u, 0) \<in> set (code_ranges us) \<longleftrightarrow> u \<in> set us"
  by (auto simp: code_ranges_def)

text \<open>
  A conversion table whose images lie in the gaps of the table itself, of other ranges that are
  converted, and of a list of letters.
\<close>

locale settled_table = shift_table +
  fixes sp :: "(nat \<times> nat \<times> int) list" and us :: "nat list"
  assumes sp_ok: "ranges_ok 0 sp"
    and us_ok: "ranges_ok 0 (code_ranges us)"
    and quiet: "list_all (\<lambda>(x, y, d). misses (nat (int x + d)) (nat (int y + d)) t) t"
      "list_all (\<lambda>(x, y, d). misses (nat (int x + d)) (nat (int y + d)) sp) t"
      "list_all (\<lambda>(x, y, d). misses (nat (int x + d)) (nat (int y + d)) (code_ranges us)) t"
begin

lemma settled:
  assumes "range_delta t n \<noteq> 0"
  defines "m \<equiv> nat (int n + range_delta t n)"
  shows "range_delta t m = 0" "(x, y, d) \<in> set sp \<Longrightarrow> \<not> (x \<le> m \<and> m \<le> y)" "m \<notin> set us" "m < 4294967296"
proof -
  obtain i where i: "i < length t" "fst (t ! i) \<le> n" "n \<le> fst (snd (t ! i))" "range_delta t n = snd (snd (t ! i))"
    using assms(1) by (cases rule: range_delta_cases [of t n]) auto
  define a b where "a = nat (int (fst (t ! i)) + snd (snd (t ! i)))" and "b = nat (int (fst (snd (t ! i))) + snd (snd (t ! i)))"
  have ab: "a \<le> m" "m \<le> b" using i by (simp_all add: m_def a_def b_def nat_mono)
  have q: "misses a b t" "misses a b sp" "misses a b (code_ranges us)"
    using quiet i(1) by (auto simp: list_all_length case_prod_unfold a_def b_def)
  show "range_delta t m = 0" by (rule misses_delta [OF q(1) ok ab])
  show "(x, y, d) \<in> set sp \<Longrightarrow> \<not> (x \<le> m \<and> m \<le> y)" using misses_mem [OF q(2) sp_ok ab] by force
  have "int n + range_delta t n < 4294967296" using ranges_ok_nth [OF ok i(1)] i(3,4) by linarith
  then show "m < 4294967296" unfolding m_def by linarith
  show "m \<notin> set us" using misses_mem [OF q(3) us_ok ab, of m m 0] by (auto simp: code_ranges_mem)
qed

end

definition lower_specials :: "(nat \<times> nat \<times> int) list" where
  "lower_specials = [(0x41, 0x5A, 0), (0x0100, 0x0176, 0), (0x01CF, 0x01DB, 0), (0x01DE, 0x01EE, 0),
     (0x01F8, 0x021E, 0), (0x0222, 0x0232, 0), (0x13A0, 0x13EF, 0), (0x1E00, 0x1EFF, 0), (0x10000, 0xFFFFFFFF, 0)]"

definition upper_specials :: "(nat \<times> nat \<times> int) list" where
  "upper_specials = [(0x61, 0x7A, 0), (0x0101, 0x0177, 0), (0x01D0, 0x01DC, 0), (0x01DF, 0x01EF, 0),
     (0x01F8, 0x021E, 0), (0x0222, 0x0232, 0), (0x1E01, 0x1EFF, 0), (0xAB70, 0xABBF, 0), (0x10000, 0xFFFFFFFF, 0)]"

text \<open>Rules to evaluate the checks without visiting the rest of a table at every step.\<close>

lemma misses_cong: "a = a' \<Longrightarrow> b = b' \<Longrightarrow> misses a b t = misses a' b' t"
  by simp

lemma ranges_ok_cong: "k = k' \<Longrightarrow> ranges_ok k t = ranges_ok k' t"
  by simp

lemma list_all_weak: "list_all P t = list_all P t"
  by simp

lemma misses_codes: "misses a b (code_ranges []) = True"
  "misses a b (code_ranges (u # us)) = (if u < a then misses a b (code_ranges us) else b < u)"
  by (simp_all add: code_ranges_def)

lemmas misses_tables =
  arg_cong [OF kLower_def, of "misses a b" for a b] arg_cong [OF kAstralLower_def, of "misses a b" for a b]
  arg_cong [OF kUpper_def, of "misses a b" for a b] arg_cong [OF lower_specials_def, of "misses a b" for a b]
  arg_cong [OF upper_specials_def, of "misses a b" for a b]
  arg_cong [OF iswupper_codes_def, of "\<lambda>us. misses a b (code_ranges us)" for a b]
  arg_cong [OF iswlower_codes_def, of "\<lambda>us. misses a b (code_ranges us)" for a b]

lemmas all_tables =
  arg_cong [OF kLower_def, of "list_all P" for P] arg_cong [OF kAstralLower_def, of "list_all P" for P]
  arg_cong [OF kUpper_def, of "list_all P" for P]

lemma code_ranges_ok: "ranges_ok 0 (code_ranges iswupper_codes)" "ranges_ok 0 (code_ranges iswlower_codes)"
  by (simp_all add: code_ranges_def iswupper_codes_def iswlower_codes_def)

lemma lower_quiet:
  "list_all (\<lambda>(x, y, d). misses (nat (int x + d)) (nat (int y + d)) kLower) kLower"
  "list_all (\<lambda>(x, y, d). misses (nat (int x + d)) (nat (int y + d)) lower_specials) kLower"
  "list_all (\<lambda>(x, y, d). misses (nat (int x + d)) (nat (int y + d)) (code_ranges iswupper_codes)) kLower"
  by (simp_all add: all_tables misses_tables misses_codes cong: misses_cong list_all_weak)

lemma astral_lower_quiet:
  "list_all (\<lambda>(x, y, d). misses (nat (int x + d)) (nat (int y + d)) kAstralLower) kAstralLower"
  "list_all (\<lambda>(x, y, d). misses (nat (int x + d)) (nat (int y + d)) [(0, 0xFFFF, 0)]) kAstralLower"
  "list_all (\<lambda>(x, y, d). misses (nat (int x + d)) (nat (int y + d)) (code_ranges iswupper_codes)) kAstralLower"
  by (simp_all add: all_tables misses_tables misses_codes cong: misses_cong list_all_weak)

lemma upper_quiet:
  "list_all (\<lambda>(x, y, d). misses (nat (int x + d)) (nat (int y + d)) kUpper) kUpper"
  "list_all (\<lambda>(x, y, d). misses (nat (int x + d)) (nat (int y + d)) upper_specials) kUpper"
  "list_all (\<lambda>(x, y, d). misses (nat (int x + d)) (nat (int y + d)) (code_ranges iswlower_codes)) kUpper"
  by (simp_all add: all_tables misses_tables misses_codes cong: misses_cong list_all_weak)

interpretation lower_settled: settled_table kLower lower_specials iswupper_codes
  by unfold_locales (rule code_ranges_ok lower_quiet | simp add: lower_specials_def)+

interpretation astral_lower_settled: settled_table kAstralLower "[(0, 0xFFFF, 0)]" iswupper_codes
  by unfold_locales (rule code_ranges_ok astral_lower_quiet | simp)+

interpretation upper_settled: settled_table kUpper upper_specials iswlower_codes
  by unfold_locales (rule code_ranges_ok upper_quiet | simp add: upper_specials_def)+

end
