(* ===== verification/Wide_Char_Props.thy ===== *)
theory Wide_Char_Props
  imports Wide_Char
begin

text \<open>
  What the conversions and classes of wide characters promise: \<open>towlower\<close> and \<open>towupper\<close> agree with linear searches and
  settle after one step, \<open>iswseparator\<close> agrees with a linear search, the searches end after eight iterations, and a
  class is found by its name.
\<close>

subsection \<open>The conversions as distances\<close>

text \<open>The conversions as the distance to the result, with linear searches.\<close>

definition lower_pair :: "nat \<Rightarrow> bool" where
  "lower_pair n \<longleftrightarrow> 0x0100 \<le> n \<and> n \<le> 0x0176 \<or> 0x01DE \<le> n \<and> n \<le> 0x01EE \<or> 0x01F8 \<le> n \<and> n \<le> 0x021E \<or>
     0x0222 \<le> n \<and> n \<le> 0x0232 \<or> 0x1E00 \<le> n \<and> n \<le> 0x1EFF"

definition lower_delta :: "nat \<Rightarrow> int" where
  "lower_delta n =
     (if n < 0x80 then if 0x41 \<le> n \<and> n \<le> 0x5A then 32 else 0
      else if n \<le> 0xFFFF then
        if lower_pair n then if n = 0x0130 then - 199 else if n = 0x1E9E \<or> odd n then 0 else 1
        else if 0x01CF \<le> n \<and> n \<le> 0x01DB then if odd n then 1 else 0
        else if 0x13A0 \<le> n \<and> n \<le> 0x13EF then 38864
        else range_delta kLower n
      else range_delta kAstralLower n)"

definition upper_pair :: "nat \<Rightarrow> bool" where
  "upper_pair n \<longleftrightarrow> 0x0101 \<le> n \<and> n \<le> 0x0177 \<or> 0x01DF \<le> n \<and> n \<le> 0x01EF \<or> 0x01F8 \<le> n \<and> n \<le> 0x021E \<or>
     0x0222 \<le> n \<and> n \<le> 0x0232 \<or> 0x1E01 \<le> n \<and> n \<le> 0x1EFF"

definition upper_delta :: "nat \<Rightarrow> int" where
  "upper_delta n =
     (if n < 0x80 then if 0x61 \<le> n \<and> n \<le> 0x7A then - 32 else 0
      else if upper_pair n then if n = 0x0131 then 232 else if n = 0x1E9E \<or> even n then 0 else - 1
      else if 0x01D0 \<le> n \<and> n \<le> 0x01DC then if odd n then 0 else - 1
      else if 0xAB70 \<le> n \<and> n \<le> 0xABBF then - 38864
      else range_delta kUpper n)"

lemma wint_numeral_nat:
  "c < numeral k \<longleftrightarrow> unat c < unat (numeral k :: wint)" "c \<le> numeral k \<longleftrightarrow> unat c \<le> unat (numeral k :: wint)"
  "numeral k \<le> c \<longleftrightarrow> unat (numeral k :: wint) \<le> unat c" "c = numeral k \<longleftrightarrow> unat c = unat (numeral k :: wint)" for c :: wint
  by (simp_all add: word_less_nat_alt word_le_nat_alt word_unat_eq_iff)

lemma odd_unat: "odd (unat c) = bit c 0" for c :: wint
  by (simp add: bit_unsigned_iff flip: bit_0)

lemma low_bit: "c AND 1 = (if odd (unat c) then 1 else 0)" "odd (unat (NOT c)) = even (unat c)" for c :: wint
proof -
  show "c AND 1 = (if odd (unat c) then 1 else 0)"
    by (rule bit_word_eqI) (auto simp: bit_and_iff bit_1_iff odd_unat intro!: gr0I)
  show "odd (unat (NOT c)) = even (unat c)"
    using odd_unat [of c] odd_unat [of "NOT c"] by (auto simp: bit_not_iff)
qed

lemma uint_add_nat:
  "unat c + k < 4294967296 \<Longrightarrow> uint (c + of_nat k :: wint) = uint c + int k"
  "k \<le> unat c \<Longrightarrow> uint (c - of_nat k :: wint) = uint c - int k"
proof -
  have u: "uint c = int (unat c)" and l: "int (unat c) < 4294967296" using uint_lt2p [of c] by simp_all
  have p: "c + word_of_int (int k) = c + of_nat k" "c + word_of_int (- int k) = c - of_nat k" by simp_all
  show "uint (c + of_nat k) = uint c + int k" if "unat c + k < 4294967296"
    unfolding p(1) [symmetric] by (rule uint_add_delta) (use that u in linarith)+
  show "uint (c - of_nat k) = uint c - int k" if "k \<le> unat c"
    unfolding p(2) [symmetric] by (subst uint_add_delta) (use that u l in linarith)+
qed

lemmas uint_add_small =
  uint_add_nat(1) [where k = 1, simplified] uint_add_nat(1) [where k = 32, simplified]
  uint_add_nat(1) [where k = 232, simplified] uint_add_nat(1) [where k = 38864, simplified]
  uint_add_nat(2) [where k = 1, simplified] uint_add_nat(2) [where k = 32, simplified]
  uint_add_nat(2) [where k = 199, simplified] uint_add_nat(2) [where k = 38864, simplified]

lemma towlower_delta: "uint (towlower c) = uint c + lower_delta (unat c)"
proof -
  consider "c < 0x80" | "\<not> c < 0x80" "c \<le> 0xFFFF" | "\<not> c < 0x80" "\<not> c \<le> 0xFFFF" by blast
  then show ?thesis
  proof cases
    case 1
    then show ?thesis
      unfolding towlower_def lower_delta_def by (simp add: wint_numeral_nat uint_add_small)
  next
    case 2
    then show ?thesis
      unfolding towlower_def lower_delta_def lower_pair_def
      by (simp add: wint_numeral_nat low_bit lower_table.shift_delta uint_add_small)
  next
    case 3
    then show ?thesis
      unfolding towlower_def lower_delta_def by (simp add: wint_numeral_nat astral_lower_table.shift_delta)
  qed
qed

lemma towupper_delta: "c \<le> 0xFFFF \<Longrightarrow> uint (towupper c) = uint c + upper_delta (unat c)"
  unfolding towupper_def upper_delta_def upper_pair_def
  by (simp add: wint_numeral_nat low_bit upper_table.shift_delta uint_add_small)

lemma iswupper_delta:
  "iswupper c \<longleftrightarrow> (if unat c < 0x80 then 0x41 \<le> unat c \<and> unat c \<le> 0x5A else lower_delta (unat c) \<noteq> 0 \<or> unat c \<in> set iswupper_codes)"
proof -
  have "towlower c = c \<longleftrightarrow> lower_delta (unat c) = 0" using towlower_delta [of c] by (auto simp: word_uint_eq_iff)
  then show ?thesis by (simp add: iswupper_def wint_numeral_nat)
qed

lemma iswlower_delta:
  "c \<le> 0xFFFF \<Longrightarrow>
   iswlower c \<longleftrightarrow> (if unat c < 0x80 then 0x61 \<le> unat c \<and> unat c \<le> 0x7A else upper_delta (unat c) \<noteq> 0 \<or> unat c \<in> set iswlower_codes)"
proof -
  assume "c \<le> 0xFFFF"
  then have "towupper c = c \<longleftrightarrow> upper_delta (unat c) = 0" using towupper_delta [of c] by (auto simp: word_uint_eq_iff)
  then show ?thesis by (simp add: iswlower_def wint_numeral_nat)
qed

text \<open>What remains of the tables at the ends of the ranges that are treated by parity.\<close>

lemma lower_ends:
  "range_delta kLower 0x0177 = 0" "range_delta kLower 0x01DC = 0" "range_delta kLower 0x01EF = 0"
  "range_delta kLower 0x021F = 0" "range_delta kLower 0x0233 = 0"
  by (rule misses_delta [OF _ kLower_ok order_refl order_refl], simp add: misses_tables cong: misses_cong)+

lemma lower_cherokee: "0xAB70 \<le> n \<Longrightarrow> n \<le> 0xABBF \<Longrightarrow> range_delta kLower n = 0"
  by (rule misses_delta [OF _ kLower_ok, of "0xAB70" "0xABBF"]) (simp_all add: misses_tables cong: misses_cong)

lemma upper_ends:
  "range_delta kUpper 0x0100 = 0" "range_delta kUpper 0x01CF = 0" "range_delta kUpper 0x01DE = 0"
  "range_delta kUpper 0x1E00 = 0"
  by (rule misses_delta [OF _ kUpper_ok order_refl order_refl], simp add: misses_tables cong: misses_cong)+

lemma upper_cherokee: "0x13A0 \<le> n \<Longrightarrow> n \<le> 0x13EF \<Longrightarrow> range_delta kUpper n = 0"
  by (rule misses_delta [OF _ kUpper_ok, of "0x13A0" "0x13EF"]) (simp_all add: misses_tables cong: misses_cong)

definition parity_range :: "nat \<Rightarrow> bool" where
  "parity_range n \<longleftrightarrow> n < 0x80 \<or> 0x0100 \<le> n \<and> n \<le> 0x0233 \<or> 0x13A0 \<le> n \<and> n \<le> 0x13EF \<or>
     0x1E00 \<le> n \<and> n \<le> 0x1EFF \<or> 0xAB70 \<le> n \<and> n \<le> 0xABBF"

lemma upper_letters: "parity_range u \<Longrightarrow> u \<notin> set iswupper_codes"
proof -
  have "list_all (\<lambda>u. \<not> parity_range u) iswupper_codes"
    by (simp add: arg_cong [OF iswupper_codes_def, of "list_all P" for P] parity_range_def cong: list_all_weak)
  then show "parity_range u \<Longrightarrow> u \<notin> set iswupper_codes" by (auto simp: list_all_iff)
qed

lemma filter_weak: "filter P xs = filter P xs"
  by simp

lemma lower_letters:
  assumes "parity_range u"
  shows "u \<in> set iswlower_codes \<longleftrightarrow> u \<in> {0x0138, 0x0149, 0x018D, 0x019B, 0x01AA, 0x01AB, 0x01BA, 0x01BE, 0x01F0, 0x0221,
     0x1E96, 0x1E97, 0x1E98, 0x1E99, 0x1E9A, 0x1E9C, 0x1E9D, 0x1E9F}"
proof -
  have "filter parity_range iswlower_codes = [0x0138, 0x0149, 0x018D, 0x019B, 0x01AA, 0x01AB, 0x01BA, 0x01BE, 0x01F0, 0x0221,
     0x1E96, 0x1E97, 0x1E98, 0x1E99, 0x1E9A, 0x1E9C, 0x1E9D, 0x1E9F]"
    by (simp add: arg_cong [OF iswlower_codes_def, of "filter P" for P] parity_range_def cong: filter_weak)
  then have "set (filter parity_range iswlower_codes) = {0x0138, 0x0149, 0x018D, 0x019B, 0x01AA, 0x01AB, 0x01BA, 0x01BE,
     0x01F0, 0x0221, 0x1E96, 0x1E97, 0x1E98, 0x1E99, 0x1E9A, 0x1E9C, 0x1E9D, 0x1E9F}"
    by (simp only: list.set)
  with assms show ?thesis by (simp only: set_filter mem_Collect_eq set_eq_iff) blast
qed

lemma lower_delta_cases:
  assumes "lower_delta n \<noteq> 0"
  obtains (ascii) "0x41 \<le> n" "n \<le> 0x5A" "lower_delta n = 32"
    | (dot) "n = 0x0130" "lower_delta n = - 199"
    | (pair) "lower_pair n" "even n" "n \<noteq> 0x1E9E" "lower_delta n = 1"
    | (caron) "0x01CF \<le> n" "n \<le> 0x01DB" "odd n" "lower_delta n = 1"
    | (cherokee) "0x13A0 \<le> n" "n \<le> 0x13EF" "lower_delta n = 38864"
    | (bmp) "range_delta kLower n \<noteq> 0" "lower_delta n = range_delta kLower n"
    | (astral) "range_delta kAstralLower n \<noteq> 0" "lower_delta n = range_delta kAstralLower n"
  using assms unfolding lower_delta_def by (simp split: if_split_asm)

lemma lower_pair_next:
  assumes "lower_pair n" "even n"
  shows "n + 1 \<in> {0x0177, 0x01EF, 0x021F, 0x0233} \<or> lower_pair (n + 1)"
  using assms unfolding lower_pair_def by (elim disjE; simp; presburger)

lemma lower_pair_range: "lower_pair n \<Longrightarrow> parity_range n \<and> 0x80 \<le> n \<and> n \<le> 0xFFFF"
  by (auto simp: lower_pair_def parity_range_def)

lemma lower_delta_pair: "lower_pair n \<Longrightarrow> odd n \<Longrightarrow> lower_delta n = 0"
  using lower_pair_range [of n] by (auto simp: lower_delta_def)

lemma lower_delta_ends: "n \<in> {0x0177, 0x01DC, 0x01EF, 0x021F, 0x0233} \<Longrightarrow> lower_delta n = 0 \<and> parity_range n \<and> 0x80 \<le> n"
  by (elim insertE emptyE; simp add: lower_delta_def lower_pair_def parity_range_def lower_ends)

lemma lower_delta_caron: "0x01CF \<le> n \<Longrightarrow> n \<le> 0x01DB \<Longrightarrow> even n \<Longrightarrow> lower_delta n = 0 \<and> parity_range n \<and> 0x80 \<le> n"
  by (simp add: lower_delta_def lower_pair_def parity_range_def)

lemma lower_delta_cherokee: "0xAB70 \<le> n \<Longrightarrow> n \<le> 0xABBF \<Longrightarrow> lower_delta n = 0 \<and> parity_range n \<and> 0x80 \<le> n"
  by (simp add: lower_delta_def lower_pair_def parity_range_def lower_cherokee)

lemma lower_settles:
  assumes "lower_delta n \<noteq> 0"
  shows "lower_delta (nat (int n + lower_delta n)) = 0 \<and> nat (int n + lower_delta n) \<notin> set iswupper_codes \<and>
    \<not> (0x41 \<le> nat (int n + lower_delta n) \<and> nat (int n + lower_delta n) \<le> 0x5A)"
  using assms
proof (cases rule: lower_delta_cases)
  case ascii
  have "nat (int n + 32) = n + 32" by simp
  then show ?thesis using ascii upper_letters [of "n + 32"] by (simp add: lower_delta_def parity_range_def)
next
  case dot
  then show ?thesis using upper_letters [of "0x69"] by (simp add: lower_delta_def parity_range_def)
next
  case pair
  have m: "nat (int n + 1) = n + 1" by simp
  have "lower_delta (n + 1) = 0 \<and> parity_range (n + 1) \<and> 0x80 \<le> n + 1"
    using lower_pair_next [OF pair(1,2)]
  proof
    assume "n + 1 \<in> {0x0177, 0x01EF, 0x021F, 0x0233}"
    then show ?thesis by (intro lower_delta_ends) blast
  next
    assume "lower_pair (n + 1)"
    then show ?thesis using lower_delta_pair [of "n + 1"] lower_pair_range [of "n + 1"] pair(2) by auto
  qed
  then show ?thesis unfolding pair(4) m using upper_letters [of "n + 1"] by simp
next
  case caron
  have m: "nat (int n + 1) = n + 1" by simp
  have "n + 1 = 0x01DC \<or> 0x01CF \<le> n + 1 \<and> n + 1 \<le> 0x01DB \<and> even (n + 1)" using caron(1-3) by auto
  then have "lower_delta (n + 1) = 0 \<and> parity_range (n + 1) \<and> 0x80 \<le> n + 1"
    using lower_delta_ends [of "n + 1"] lower_delta_caron [of "n + 1"] by blast
  then show ?thesis unfolding caron(4) m using upper_letters [of "n + 1"] by simp
next
  case cherokee
  have m: "nat (int n + 38864) = n + 38864" by simp
  have "lower_delta (n + 38864) = 0 \<and> parity_range (n + 38864) \<and> 0x80 \<le> n + 38864"
    using cherokee(1,2) by (intro lower_delta_cherokee) simp_all
  then show ?thesis unfolding cherokee(3) m using upper_letters [of "n + 38864"] by simp
next
  case bmp
  define m where "m = nat (int n + range_delta kLower n)"
  note s = lower_settled.settled [OF bmp(1), folded m_def]
  have "\<forall>(x, y, d) \<in> set lower_specials. \<not> (x \<le> m \<and> m \<le> y)" using s(2) by blast
  then have q: "\<not> (0x41 \<le> m \<and> m \<le> 0x5A)" "\<not> lower_pair m" "\<not> (0x01CF \<le> m \<and> m \<le> 0x01DB)"
    "\<not> (0x13A0 \<le> m \<and> m \<le> 0x13EF)" "\<not> (0x10000 \<le> m \<and> m \<le> 0xFFFFFFFF)"
    unfolding lower_specials_def lower_pair_def by simp_all
  have "m \<le> 0xFFFF" using q(5) s(4) by simp
  then have "lower_delta m = 0" using q s(1) unfolding lower_delta_def by simp
  then show ?thesis using s(3) q(1) unfolding bmp(2) m_def [symmetric] by simp
next
  case astral
  define m where "m = nat (int n + range_delta kAstralLower n)"
  note s = astral_lower_settled.settled [OF astral(1), folded m_def]
  have "0xFFFF < m" using s(2) [of 0 "0xFFFF" 0] by simp
  then show ?thesis using s(1,3) unfolding astral(2) m_def [symmetric] by (simp add: lower_delta_def)
qed

lemma unat_towlower: "unat (towlower c) = nat (int (unat c) + lower_delta (unat c))"
  unfolding unat_eq_nat_uint [of "towlower c"] towlower_delta by simp

lemma towlower_id: "towlower c = c \<longleftrightarrow> lower_delta (unat c) = 0"
  unfolding word_uint_eq_iff towlower_delta by simp

lemma towlower_settled: "lower_delta (unat (towlower c)) = 0"
proof (cases "lower_delta (unat c) = 0")
  case True
  then show ?thesis unfolding unat_towlower by simp
next
  case False
  then show ?thesis unfolding unat_towlower by (rule lower_settles [THEN conjunct1])
qed

lemma iswupper_towlower: "iswupper (towlower c) \<longleftrightarrow> towlower c = c \<and> unat c \<in> set iswupper_codes"
proof (cases "lower_delta (unat c) = 0")
  case True
  have "unat c \<notin> set iswupper_codes \<and> \<not> (0x41 \<le> unat c \<and> unat c \<le> 0x5A)" if "unat c < 0x80"
    using True that upper_letters [of "unat c"] by (simp add: lower_delta_def parity_range_def split: if_splits)
  then show ?thesis using True towlower_id [of c] by (simp add: iswupper_delta)
next
  case False
  then show ?thesis
    using lower_settles [OF False, folded unat_towlower] towlower_settled [of c] towlower_id [of c]
    unfolding iswupper_delta by simp
qed

text \<open>(C29) \<open>towlower\<close> is what a linear search of its tables gives, for every 32-bit character.  Converting twice
  changes nothing, and after the conversion the only upper case letters left are those of the list that have no
  lower case form.\<close>

theorem towlower_stable:
  "uint (towlower c) = uint c + lower_delta (unat c) \<and>
   towlower (towlower c) = towlower c \<and>
   (iswupper (towlower c) \<longleftrightarrow> towlower c = c \<and> unat c \<in> set iswupper_codes)"
  using towlower_delta towlower_id towlower_settled iswupper_towlower by blast

lemma upper_delta_cases:
  assumes "upper_delta n \<noteq> 0" "n \<noteq> 0x0131"
  obtains (ascii) "0x61 \<le> n" "n \<le> 0x7A" "upper_delta n = - 32"
    | (pair) "upper_pair n" "odd n" "upper_delta n = - 1"
    | (caron) "0x01D0 \<le> n" "n \<le> 0x01DC" "even n" "upper_delta n = - 1"
    | (cherokee) "0xAB70 \<le> n" "n \<le> 0xABBF" "upper_delta n = - 38864"
    | (bmp) "range_delta kUpper n \<noteq> 0" "upper_delta n = range_delta kUpper n"
  using assms unfolding upper_delta_def by (simp split: if_split_asm)

lemma upper_pair_prev:
  assumes "upper_pair (Suc n)" "even n"
  shows "n \<in> {0x0100, 0x01DE, 0x1E00} \<or> upper_pair n"
  using assms unfolding upper_pair_def by (elim disjE; simp; presburger)

lemma upper_pair_range: "upper_pair n \<Longrightarrow> parity_range n \<and> 0x80 \<le> n \<and> n \<le> 0xFFFF"
  by (auto simp: upper_pair_def parity_range_def)

lemma upper_delta_pair: "upper_pair n \<Longrightarrow> even n \<Longrightarrow> upper_delta n = 0"
  using upper_pair_range [of n] by (auto simp: upper_delta_def)

definition upper_done :: "nat \<Rightarrow> bool" where
  "upper_done n \<longleftrightarrow> upper_delta n = 0 \<and> \<not> (0x61 \<le> n \<and> n \<le> 0x7A) \<and> n \<le> 0xFFFF"

lemma upper_done_ends: "n \<in> {0x0100, 0x01CF, 0x01DE, 0x1E00} \<Longrightarrow> upper_done n \<and> parity_range n"
  by (elim insertE emptyE; simp add: upper_done_def upper_delta_def upper_pair_def parity_range_def upper_ends)

lemma upper_done_caron: "0x01D0 \<le> n \<Longrightarrow> n \<le> 0x01DC \<Longrightarrow> odd n \<Longrightarrow> upper_done n \<and> parity_range n"
  by (simp add: upper_done_def upper_delta_def upper_pair_def parity_range_def)

lemma upper_done_cherokee: "0x13A0 \<le> n \<Longrightarrow> n \<le> 0x13EF \<Longrightarrow> upper_done n \<and> parity_range n"
  by (simp add: upper_done_def upper_delta_def upper_pair_def parity_range_def upper_cherokee)

text \<open>The five letters whose conversion is again in the list of lower case letters.\<close>

definition upper_stuck :: "nat \<Rightarrow> bool" where
  "upper_stuck n \<longleftrightarrow> n \<in> {0x0139, 0x1E97, 0x1E99, 0x1E9B, 0x1E9D}"

lemma upper_settles_pair:
  assumes "upper_pair (Suc n)" "even n"
  shows "upper_done n \<and> (n \<in> set iswlower_codes \<longleftrightarrow> upper_stuck (Suc n))"
proof -
  have d: "upper_done n \<and> parity_range n"
    using upper_pair_prev [OF assms]
  proof
    assume "n \<in> {0x0100, 0x01DE, 0x1E00}"
    then show ?thesis by (intro upper_done_ends) blast
  next
    assume "upper_pair n"
    then show ?thesis
      using upper_delta_pair [of n] upper_pair_range [of n] assms(2) by (auto simp: upper_done_def)
  qed
  have "(n \<in> {0x0138, 0x0149, 0x018D, 0x019B, 0x01AA, 0x01AB, 0x01BA, 0x01BE, 0x01F0, 0x0221,
     0x1E96, 0x1E97, 0x1E98, 0x1E99, 0x1E9A, 0x1E9C, 0x1E9D, 0x1E9F}) = upper_stuck (Suc n)"
    using assms by (auto simp: upper_stuck_def upper_pair_def)
  with d show ?thesis using lower_letters [of n] by simp
qed

lemma upper_settles:
  assumes "upper_delta n \<noteq> 0" "n \<noteq> 0x0131"
  shows "upper_done (nat (int n + upper_delta n)) \<and> (nat (int n + upper_delta n) \<in> set iswlower_codes \<longleftrightarrow> upper_stuck n)"
  using assms
proof (cases rule: upper_delta_cases)
  case ascii
  have m: "nat (int n + - 32) = n - 32" using ascii(1) by simp
  have s: "n - 32 < 0x80" using ascii(2) by simp
  then have "parity_range (n - 32)" unfolding parity_range_def by blast
  moreover have "\<not> upper_stuck n" using ascii(1,2) by (simp add: upper_stuck_def)
  moreover have "upper_done (n - 32)" using ascii(1,2) by (simp add: upper_done_def upper_delta_def)
  ultimately show ?thesis unfolding ascii(3) m using s lower_letters [of "n - 32"] by auto
next
  case pair
  then obtain k where k: "n = Suc k" by (cases n) (simp_all add: upper_pair_def)
  have m: "nat (int (Suc k) + - 1) = k" by simp
  show ?thesis unfolding k pair(3) [unfolded k] m by (rule upper_settles_pair) (use pair k in simp_all)
next
  case caron
  then obtain k where k: "n = Suc k" by (cases n) simp_all
  have m: "nat (int (Suc k) + - 1) = k" by simp
  have "k = 0x01CF \<or> 0x01D0 \<le> k \<and> k \<le> 0x01DC \<and> odd k" using caron(1-3) unfolding k by auto
  then have "upper_done k \<and> parity_range k" using upper_done_ends [of k] upper_done_caron [of k] by blast
  moreover have "\<not> upper_stuck (Suc k)" using caron(1,2) unfolding k by (simp add: upper_stuck_def)
  ultimately show ?thesis
    unfolding k caron(4) [unfolded k] m using lower_letters [of k] caron(1,2) unfolding k by auto
next
  case cherokee
  have m: "nat (int n + - 38864) = n - 38864" using cherokee(1) by simp
  have r: "0x13A0 \<le> n - 38864" "n - 38864 \<le> 0x13EF" using cherokee(1,2) by simp_all
  have "\<not> upper_stuck n" using cherokee(1,2) by (simp add: upper_stuck_def)
  then show ?thesis
    unfolding cherokee(3) m using upper_done_cherokee [OF r] lower_letters [of "n - 38864"] r by auto
next
  case bmp
  define m where "m = nat (int n + range_delta kUpper n)"
  note s = upper_settled.settled [OF bmp(1), folded m_def]
  have "\<forall>(x, y, d) \<in> set upper_specials. \<not> (x \<le> m \<and> m \<le> y)" using s(2) by blast
  then have q: "\<not> (0x61 \<le> m \<and> m \<le> 0x7A)" "\<not> upper_pair m" "\<not> (0x01D0 \<le> m \<and> m \<le> 0x01DC)"
    "\<not> (0xAB70 \<le> m \<and> m \<le> 0xABBF)" "\<not> (0x10000 \<le> m \<and> m \<le> 0xFFFFFFFF)"
    unfolding upper_specials_def upper_pair_def by simp_all
  have "m \<le> 0xFFFF" using q(5) s(4) by simp
  moreover have "upper_delta m = 0" using q s(1) unfolding upper_delta_def by simp
  moreover have "\<not> upper_stuck n"
    using bmp(1) misses_delta [OF _ kUpper_ok order_refl order_refl] unfolding upper_stuck_def
    by (elim contrapos_nn insertE emptyE; simp add: misses_tables cong: misses_cong)
  ultimately show ?thesis using s(3) q(1) unfolding bmp(2) m_def [symmetric] by (simp add: upper_done_def)
qed

lemma unat_towupper: "c \<le> 0xFFFF \<Longrightarrow> unat (towupper c) = nat (int (unat c) + upper_delta (unat c))"
  unfolding unat_eq_nat_uint [of "towupper c"] by (simp add: towupper_delta)

lemma towupper_id: "c \<le> 0xFFFF \<Longrightarrow> towupper c = c \<longleftrightarrow> upper_delta (unat c) = 0"
  unfolding word_uint_eq_iff by (simp add: towupper_delta)

lemma towupper_changed:
  assumes "c \<le> 0xFFFF" "c \<noteq> 0x0131" "towupper c \<noteq> c"
  shows "upper_done (unat (towupper c)) \<and> (unat (towupper c) \<in> set iswlower_codes \<longleftrightarrow> upper_stuck (unat c))"
proof -
  have "unat c \<noteq> 0x0131" using assms(2) by (simp add: wint_numeral_nat)
  moreover have "upper_delta (unat c) \<noteq> 0" using assms(1,3) by (simp add: towupper_id)
  ultimately show ?thesis unfolding unat_towupper [OF assms(1)] by (intro upper_settles)
qed

text \<open>(C30) \<open>towupper\<close> is the linear search as well, for the characters of the first plane.  Converting twice
  changes nothing, except for the dotless i; and what was changed is no lower case letter afterwards, except for
  five characters whose neighbours the code pairs by mistake.\<close>

theorem towupper_stable:
  assumes "c \<le> 0xFFFF" "c \<noteq> 0x0131"
  shows "uint (towupper c) = uint c + upper_delta (unat c) \<and>
         towupper (towupper c) = towupper c \<and>
         (towupper c \<noteq> c \<longrightarrow> (iswlower (towupper c) \<longleftrightarrow> unat c \<in> {0x0139, 0x1E97, 0x1E99, 0x1E9B, 0x1E9D}))"
proof (cases "towupper c = c")
  case True
  then show ?thesis using towupper_delta [OF assms(1)] by simp
next
  case False
  note s = towupper_changed [OF assms False, unfolded upper_done_def]
  have r: "towupper c \<le> 0xFFFF" using s by (simp add: wint_numeral_nat)
  have "\<not> unat (towupper c) < 0x80 \<or> \<not> upper_stuck (unat c)"
    using s lower_letters [of "unat (towupper c)"] unfolding parity_range_def by auto
  then show ?thesis
    using s towupper_id [OF r] towupper_delta [OF assms(1)] False
    unfolding iswlower_delta [OF r] upper_stuck_def by auto
qed

theorem towupper_stable_witness:
  "towupper (towupper 0x00E9) = towupper 0x00E9 \<and> towupper (towupper 0x03C9) = towupper 0x03C9"
  using towupper_stable [of "0x00E9"] towupper_stable [of "0x03C9"] by simp

text \<open>The dotless i becomes an s with a comma, which is converted again; a lower case l with an acute accent
  becomes upper case by \<open>towlower\<close>; and the last entries of the table for the other planes are out of order.\<close>

lemma towupper_dotless_i: "towupper 0x0131 = 0x0219" "towupper 0x0219 = 0x0218"
  by (simp_all add: towupper_def)

lemma towlower_l_acute: "towlower 0x013A = 0x013B" "towlower 0x0139 = 0x0139"
  by (simp_all add: towlower_def)

lemma kAstralUpper_unsorted: "\<not> ranges_ok 0 kAstralUpper"
  by (simp add: kAstralUpper_def)

subsection \<open>Separators\<close>

lemma range_bisect_cong:
  "0 \<le> l \<Longrightarrow> r \<le> int n \<Longrightarrow> (\<And>i. i < n \<Longrightarrow> y i = y' i) \<Longrightarrow> range_bisect y c l r = range_bisect y' c l r"
proof (induction "nat (r - l)" arbitrary: l r rule: less_induct)
  case less
  show ?case
  proof (cases "l < r")
    case True
    define m where "m = (l + r) div 2"
    have m: "l \<le> m" "m < r" "y (nat m) = y' (nat m)" using True less.prems by (auto simp: m_def)
    show ?thesis
      using True m less.prems less.hyps [of r "m + 1"] less.hyps [of m l]
      unfolding range_bisect.simps [of y c l r] range_bisect.simps [of y' c l r] average_floor m_def [symmetric] Let_def
      by simp
  qed (simp add: range_bisect.simps)
qed

text \<open>A table without shifts, searched for membership only.\<close>

locale code_ranges_table =
  fixes codes :: "(nat \<times> nat) list"
  assumes codes_ok: "ranges_ok 0 (flat_ranges codes)"

sublocale code_ranges_table \<subseteq> shift_table "flat_ranges codes"
  by unfold_locales (rule codes_ok)

context code_ranges_table
begin

lemma mem_list: "range_mem codes c \<longleftrightarrow> list_ex (\<lambda>(x, y). x \<le> unat c \<and> unat c \<le> y) codes"
proof -
  define k where "k = range_bisect (\<lambda>i. snd (codes ! i)) (unat c) 0 (int (length codes))"
  have e: "fst (snd (flat_ranges codes ! i)) = snd (codes ! i)" "fst (flat_ranges codes ! i) = fst (codes ! i)"
    if "i < length codes" for i
    using that by (simp_all add: flat_ranges_def case_prod_unfold)
  have n: "length (flat_ranges codes) = length codes" by (simp add: flat_ranges_def)
  have k: "range_bisect (\<lambda>i. fst (snd (flat_ranges codes ! i))) (unat c) 0 (int (length codes)) = k"
    unfolding k_def by (rule range_bisect_cong [of _ _ "length codes"]) (use e in auto)
  show ?thesis
  proof (cases "\<exists>i < length codes. fst (codes ! i) \<le> unat c \<and> unat c \<le> snd (codes ! i)")
    case True
    then obtain i where i: "i < length codes" "fst (codes ! i) \<le> unat c" "unat c \<le> snd (codes ! i)" by blast
    then have "k = int i" using bisect_hit [of i "unat c"] e n k by simp
    then show ?thesis using i by (auto simp: range_mem_def k_def [symmetric] list_ex_length Let_def)
  next
    case False
    have "0 \<le> k" using bisect_bound [of 0 "int (length codes)" "unat c"] n k by (auto simp: Let_def)
    then have "\<not> range_mem codes c" using False by (auto simp: range_mem_def k_def [symmetric] Let_def)
    then show ?thesis using False by (simp add: list_ex_length case_prod_unfold)
  qed
qed

end

interpretation code_table: code_ranges_table kCodes
  by unfold_locales (rule kCodes_ok)

interpretation astral_code_table: code_ranges_table kAstralCodes
  by unfold_locales (rule kAstralCodes_ok)

text \<open>(C31) \<open>iswseparator\<close> is what a linear search of its tables gives: false for the ASCII letters and digits and for
  the characters in one of the ranges, true for all others.\<close>

theorem iswseparator_linear:
  "iswseparator c =
     (if c < 0x80 then \<not> (0x30 \<le> c \<and> c \<le> 0x39 \<or> 0x41 \<le> c \<and> c \<le> 0x5A \<or> 0x61 \<le> c \<and> c \<le> 0x7A)
      else \<not> list_ex (\<lambda>(x, y). x \<le> unat c \<and> unat c \<le> y) (if c \<le> 0xFFFF then kCodes else kAstralCodes))"
  by (simp add: iswseparator_def code_table.mem_list astral_code_table.mem_list)

text \<open>The table has a gap at the letters from o with stroke to y with diaeresis.\<close>

lemma iswseparator_latin: "iswseparator 0x00FF" "iswlower 0x00FF"
proof -
  show "iswseparator 0x00FF"
    unfolding iswseparator_def code_table.mem_list astral_code_table.mem_list by (simp add: kCodes_def)
  have "range_delta kUpper 0x00FF = 121" by (simp add: range_delta_def kUpper_def)
  then show "iswlower 0x00FF" by (simp add: iswlower_delta upper_delta_def upper_pair_def)
qed

subsection \<open>How long the searches run\<close>

text \<open>The loop with a bound on its iterations.\<close>

primrec range_iter :: "nat \<Rightarrow> (nat \<Rightarrow> nat) \<Rightarrow> nat \<Rightarrow> int \<Rightarrow> int \<Rightarrow> int option" where
  "range_iter 0 y c l r = (if l < r then None else Some l)"
| "range_iter (Suc k) y c l r =
     (if l < r then
        (let m = (l AND r) + drop_bit 1 (l XOR r) in
         if y (nat m) < c then range_iter k y c (m + 1) r else range_iter k y c l m)
      else Some l)"

lemma range_iter_bisect: "r - l < 2 ^ k \<Longrightarrow> range_iter k y c l r = Some (range_bisect y c l r)"
proof (induction k arbitrary: l r)
  case (Suc k)
  define m where "m = (l + r) div 2"
  show ?case
  proof (cases "l < r")
    case True
    then have "r - (m + 1) < 2 ^ k" "m - l < 2 ^ k" using Suc.prems by (auto simp: m_def)
    then show ?thesis
      using True Suc.IH
      unfolding range_bisect.simps [of y c l r] range_iter.simps(2) average_floor m_def [symmetric] Let_def by simp
  qed (simp add: range_bisect.simps)
qed (simp add: range_bisect.simps)

text \<open>(C32) Every search ends, whatever the character: eight iterations are enough for each of the six tables.\<close>

theorem range_bisect_ends:
  "list_all (\<lambda>t. range_iter 8 (\<lambda>i. fst (snd (t ! i))) c 0 (int (length t)) =
       Some (range_bisect (\<lambda>i. fst (snd (t ! i))) c 0 (int (length t)))) [kLower, kAstralLower, kUpper, kAstralUpper] \<and>
   list_all (\<lambda>t. range_iter 8 (\<lambda>i. snd (t ! i)) c 0 (int (length t)) =
       Some (range_bisect (\<lambda>i. snd (t ! i)) c 0 (int (length t)))) [kCodes, kAstralCodes]"
proof -
  have "length kLower = 123" "length kAstralLower = 19" "length kUpper = 86" "length kAstralUpper = 19"
    "length kCodes = 151" "length kAstralCodes = 206"
    by (simp_all add: kLower_def kAstralLower_def kUpper_def kAstralUpper_def kCodes_def kAstralCodes_def)
  then show ?thesis by (simp add: range_iter_bisect)
qed

subsection \<open>Classes by name\<close>

lemma takeWhile_pad_name: "0 \<notin> set s \<Longrightarrow> length s \<le> 8 \<Longrightarrow> takeWhile (\<lambda>x. x \<noteq> 0) (pad_name s) = s"
proof -
  assume "0 \<notin> set s" "length s \<le> 8"
  then have "takeWhile (\<lambda>x. x \<noteq> 0) s = s" by (auto simp: takeWhile_eq_all_conv)
  moreover have "pad_name s = s @ replicate (8 - length s) 0" using \<open>length s \<le> 8\<close> by (simp add: pad_name_def)
  ultimately show ?thesis using \<open>0 \<notin> set s\<close> by (simp add: takeWhile_append takeWhile_replicate)
qed

lemma pad_name_eq:
  assumes "0 \<notin> set s" "length s \<le> 8" "0 \<notin> set t" "length t \<le> 8"
  shows "pad_name s = pad_name t \<longleftrightarrow> s = t"
  using takeWhile_pad_name [OF assms(1,2)] takeWhile_pad_name [OF assms(3,4)] by metis

lemma class_names_ok: "n \<in> set kWcTypeNames \<Longrightarrow> 0 \<notin> set (str n) \<and> length (str n) \<le> 8"
  by (auto simp: kWcTypeNames_def str_def)

definition class_number :: "bytes \<Rightarrow> nat" where
  "class_number s =
    (if s = str ''alnum'' then 1 else if s = str ''alpha'' then 2 else if s = str ''blank'' then 3
     else if s = str ''cntrl'' then 4 else if s = str ''digit'' then 5 else if s = str ''graph'' then 6
     else if s = str ''lower'' then 7 else if s = str ''print'' then 8 else if s = str ''punct'' then 9
     else if s = str ''space'' then 10 else if s = str ''upper'' then 11 else if s = str ''xdigit'' then 12 else 0)"

text \<open>(C33) Looking a class up by its name and testing a character with the number found is the same as calling the
  function of that name; every other string gives the number 0, which no character satisfies.\<close>

theorem iswctype_wctype:
  assumes "0 \<notin> set s"
  shows "iswctype c (wctype s) =
    (if s = str ''alnum'' then iswalnum c else if s = str ''alpha'' then iswalpha c else if s = str ''blank'' then iswblank c
     else if s = str ''cntrl'' then iswcntrl c else if s = str ''digit'' then iswdigit c else if s = str ''graph'' then iswgraph c
     else if s = str ''lower'' then iswlower c else if s = str ''print'' then iswprint c else if s = str ''punct'' then iswpunct c
     else if s = str ''space'' then iswspace c else if s = str ''upper'' then iswupper c
     else if s = str ''xdigit'' then iswxdigit c else False)"
proof (cases "length s \<le> 8")
  case True
  have n: "pad_name s = pad_name (str n) \<longleftrightarrow> s = str n" if "n \<in> set kWcTypeNames" for n
    using pad_name_eq [OF assms True] class_names_ok [OF that] by blast
  have "wctype_loop (pad_name s) 0 kWcTypeNames = class_number s"
    unfolding class_number_def kWcTypeNames_def using n by (simp add: kWcTypeNames_def)
  then show ?thesis using True
    by (simp add: wctype_def iswctype_def class_number_def kWcTypeFuncs_def)
next
  case False
  then have "s \<noteq> str n" if "n \<in> set kWcTypeNames" for n using class_names_ok [OF that] by auto
  with False show ?thesis by (simp add: wctype_def iswctype_def kWcTypeNames_def)
qed

theorem iswctype_wctype_witness: "iswctype 0x37 (wctype (str ''digit''))"
  using iswctype_wctype [of "str ''digit''" "0x37"] by (simp add: str_def iswdigit_def)

end
