(* ===== verification/Spec2Isabelle.thy ===== *)
theory Spec2Isabelle
  imports Http_Unchunk Http_Message Http_Base64 Http_Text Http_Url_Roundtrip Http_Paths Http_Content Http_Addr Wide_Char_Props
begin

text \<open>
  Verification of the HTTP library of Cosmopolitan (\<open>src/net/http\<close>) and of the string and wide
  character routines of its C library that it rests on (\<open>src/libc/str\<close>, \<open>src/libc/intrin\<close>).

  \<^bold>\<open>The program.\<close>  A server reads a request into a buffer.  \<open>ParseHttpMessage\<close> splits it into slices of
  the buffer and recognises methods and headers by perfect hashes; \<open>Unchunk\<close> decodes a chunked body in
  place; \<open>ParseUrl\<close> splits and unescapes the target; \<open>IsAcceptablePath\<close> and its relatives decide what to
  serve, \<open>FindContentType\<close> with which type; \<open>ParseIp\<close>, \<open>ParseForwarded\<close> and \<open>CategorizeIp\<close> deal with the
  client's address; the escaping and encoding routines build the answer.  Text is UTF-8 in the generalised
  form of Thompson and Pike, up to 32 bits, and wide characters have case conversions and classes.

  \<^bold>\<open>Representation.\<close>  A byte is an \<open>8 word\<close>, a buffer a list of bytes; the arguments \<open>(p, n)\<close>, where
  \<open>n = -1\<close> stands for \<open>strlen\<close>, are a \<open>cstr\<close>; \<open>malloc\<close> and \<open>realloc\<close> are a predicate on the requested size
  that is an argument of the operation; failures are \<open>option\<close> or sum values; a C structure is a \<open>record\<close>, an
  enumeration a \<open>datatype\<close>; 16, 32 and 64-bit integers whose overflow or bits matter are words, others are numbers
  with the tests of the code written out.  Output that the code terminates with \<open>NUL\<close> is a list without it.

  \<^bold>\<open>Theories.\<close>
  \<^item> \<open>Cosmo_Prelude\<close>: the vocabulary above, facts on lists, words and 256-entry tables, and the interfaces
    \<open>resumable\<close> (byte-driven machines), \<open>indexed_parser\<close> and \<open>codec\<close>.
  \<^item> \<open>Http_Tables\<close>: \<open>kHexToInt\<close>, \<open>kHttpToken\<close>, \<open>kHostChars\<close> and the \<open>kEscape\<close> tables, with a characterisation of
    each.  \<open>Decimal\<close>: values and printing of decimal numerals.  \<open>Bisect\<close>: the binary search loop of the sources as
    interfaces \<open>bisection\<close> and \<open>table_search\<close>.
  \<^item> \<open>Http_Unchunk\<close> (\<open>unchunk.c\<close>): every label of the state machine, with the bulk copy and the in-place buffer.
    It decodes exactly the chunked messages, in one call or in two, and never touches bytes it has not read.
  \<^item> \<open>Http_Names\<close> (\<open>gethttpmethod.c\<close>, \<open>gethttpheader.c\<close>, \<open>gethttpheadername.c\<close>, \<open>gethttpreason.c\<close>): the perfect
    hashes find exactly the names up to case (interface \<open>perfect_hash\<close>), the reason phrases are found by bisection.
  \<^item> \<open>Http_Message\<close> (\<open>parsehttpmessage.c\<close>, \<open>headerhassubstring.c\<close>, \<open>foldheader.c\<close>): the parser with its inner loops
    refines a machine with one byte per step; printed requests are parsed back, all slices lie in the
    buffer and hold no control codes, \<open>FoldHeader\<close> and \<open>HeaderHas\<close> see all values; and a request that arrives
    in pieces can be rejected.
  \<^item> \<open>Libc_Str\<close> (\<open>memmem.c\<close>), \<open>Thompson_Pike\<close> (\<open>tpenc.c\<close>, \<open>bsr.c\<close>, \<open>thompike.h\<close>): first occurrence; encoding and
    decoding of 32-bit code points are inverse.
  \<^item> \<open>Http_Escape\<close> (\<open>underlong.c\<close>, \<open>hascontrolcodes.c\<close>, \<open>visualizecontrolcodes.c\<close>), \<open>Http_Text\<close> (\<open>escapehtml.c\<close>,
    \<open>decodelatin1.c\<close>, \<open>encodelatin1.c\<close>, \<open>encodehttpheadervalue.c\<close>, \<open>indentlines.c\<close>), \<open>Http_Base64\<close>: canonical form,
    absence of control codes and of markup, round trips, sizes of the allocations.
  \<^item> \<open>Http_Url\<close> (\<open>parseurl.c\<close>, \<open>encodeurl.c\<close>, \<open>escapeurl.c\<close>, \<open>escapeurlview.c\<close> and the \<open>escape\<close> routines built on
    them): the decoded text fits its allocation.  \<open>Http_Url_Roundtrip\<close>: parsing what \<open>EncodeUrl\<close> printed gives the
    URL back (interface \<open>url_text\<close>, one instance per part of a URL).
  \<^item> \<open>Http_Paths\<close> (\<open>isacceptablepath.c\<close>, \<open>isreasonablepath.c\<close>, \<open>isacceptablehost.c\<close>, \<open>isacceptableport.c\<close>,
    \<open>ismimetype.c\<close>, \<open>isvalidcookievalue.c\<close>, \<open>isvalidhttptoken.c\<close>): the loops decide properties of segments, labels
    and numerals, and an acceptable path cannot be disguised by overlong encodings.
  \<^item> \<open>Http_Content\<close> (\<open>findcontenttype.c\<close>, \<open>isnocompressext.c\<close>): the searches over packed extensions are linear
    searches of the tables.
  \<^item> \<open>Http_Addr\<close> (\<open>parseip.c\<close>, \<open>parsecidr.c\<close>, \<open>parseforwarded.c\<close>, \<open>categorizeip.c\<close>, \<open>getipcategoryname.c\<close> and the
    predicates on addresses): printed addresses are read back, and all addresses but those of network 0 have
    a named category.
  \<^item> \<open>Wide_Char\<close>, \<open>Wide_Char_Props\<close> (\<open>towlower.c\<close>, \<open>towupper.c\<close>, \<open>iswseparator.c\<close>, the \<open>isw\<close> classes, \<open>wctype.c\<close>,
    \<open>iswctype.c\<close>): the searches agree with linear ones (interfaces \<open>range_table\<close>, \<open>shift_table\<close>, \<open>settled_table\<close>,
    \<open>code_ranges_table\<close>) and end after eight iterations, the conversions are stable, classes are found by name.

  \<^bold>\<open>Loops and bounds.\<close>  Every loop is a recursion with a termination proof, by the bytes that are left or the
  width of the interval that is searched; no model runs on fuel.  The one bounded function, \<open>range_iter\<close>, serves to
  state how many iterations a search takes: eight, since no table has 256 entries.

  \<^bold>\<open>Not modelled.\<close>  The vector branches of \<open>memmem\<close>, \<open>strchr\<close> and \<open>memrchr\<close>, which compute the same searches with
  instructions that have no source here; the remaining parsers of \<open>net/http\<close> (ranges, dates, content lengths), base 32,
  JavaScript string literals and the token bucket; the servers and tools built on the library
  (\<open>tool\<close>, \<open>examples\<close>), whose work is system calls; the rest of the C library, the executable format
  and the third-party packages.
\<close>

end
